theory Spec2Isabelle
  imports Main
begin

section \<open>JavaScript values and strings\<close>

text \<open>
  Strings are lists of 8-bit characters. An option that the command line may leave out is a
  \<open>string option\<close>; \<open>truthy\<close> is JavaScript's truthiness of such a value
  (\<open>undefined\<close>, \<open>null\<close> and the empty string are falsy).
\<close>

definition truthy :: "string option \<Rightarrow> bool" where
  "truthy v = (case v of None \<Rightarrow> False | Some s \<Rightarrow> s \<noteq> [])"

text \<open>\<open>v || null\<close>.\<close>

definition or_null :: "string option \<Rightarrow> string option" where
  "or_null v = (if truthy v then v else None)"

text \<open>
  A number that may be \<open>null\<close>: \<open>number_truthy\<close> is its truthiness (\<open>null\<close> and \<open>0\<close> are
  falsy), \<open>to_number\<close> its value in arithmetic and comparisons (\<open>null\<close> counts as \<open>0\<close>).
\<close>

definition number_truthy :: "int option \<Rightarrow> bool" where
  "number_truthy v = (case v of None \<Rightarrow> False | Some n \<Rightarrow> n \<noteq> 0)"

definition to_number :: "int option \<Rightarrow> int" where
  "to_number v = (case v of None \<Rightarrow> 0 | Some n \<Rightarrow> n)"

text \<open>
  \<open>toLowerCase\<close> on the ASCII letters; the other characters are kept. The strings that the
  program compares lower-cased text with (extensions, format names, positions, dimension
  keywords) are ASCII.
\<close>

definition char_toLowerCase :: "char \<Rightarrow> char" where
  "char_toLowerCase c =
     (case map_of (zip ''ABCDEFGHIJKLMNOPQRSTUVWXYZ'' ''abcdefghijklmnopqrstuvwxyz'') c of
        Some l \<Rightarrow> l | None \<Rightarrow> c)"

definition toLowerCase :: "string \<Rightarrow> string" where
  "toLowerCase s = map char_toLowerCase s"

definition startsWith :: "string \<Rightarrow> string \<Rightarrow> bool" where
  "startsWith s q = (take (length q) s = q)"

text \<open>The ASCII white space: tab, line feed, vertical tab, form feed, carriage return, space.\<close>

definition is_whitespace :: "char \<Rightarrow> bool" where
  "is_whitespace c = (c \<in> set [CHR 0x09, CHR 0x0A, CHR 0x0B, CHR 0x0C, CHR 0x0D, CHR '' ''])"

definition trim :: "string \<Rightarrow> string" where
  "trim s = rev (dropWhile is_whitespace (rev (dropWhile is_whitespace s)))"

definition digit_value :: "char \<Rightarrow> int option" where
  "digit_value c = map_of (zip ''0123456789'' [0, 1, 2, 3, 4, 5, 6, 7, 8, 9]) c"

text \<open>
  \<open>parseInt(s, 10)\<close>: leading white space and one sign are skipped, the longest run of
  decimal digits is read, and the rest of the string is ignored. \<open>None\<close> is \<open>NaN\<close>.
\<close>

definition parseInt :: "string \<Rightarrow> int option" where
  "parseInt s =
     (let t = dropWhile is_whitespace s;
          negative = (t \<noteq> [] \<and> hd t = CHR ''-'');
          u = (if t \<noteq> [] \<and> (hd t = CHR ''-'' \<or> hd t = CHR ''+'') then tl t else t);
          ds = takeWhile (\<lambda>c. digit_value c \<noteq> None) u;
          n = foldl (\<lambda>acc c. 10 * acc + the (digit_value c)) 0 ds
      in if ds = [] then None else Some (if negative then - n else n))"

text \<open>
  What a property lookup in an object literal yields: a string for the literal's own keys,
  some other object for the keys it inherits.
\<close>

datatype jsval = JStr string | JObj

text \<open>
  Every \<open>throw\<close> of the program and every failure of its collaborators is a value:

  \<^item> \<open>TypeError\<close>, \<open>SyntaxError\<close>: raised by the runtime (\<open>path.resolve(undefined)\<close>,
    \<open>new RegExp\<close> on an invalid pattern);
  \<^item> \<open>FsError\<close>, \<open>SharpError\<close>: raised by the file system and by the image library;
  \<^item> the others: one constructor for each \<open>throw new Error(...)\<close> of the commands, carrying
    the values the message interpolates.
\<close>

datatype error =
    TypeError string
  | SyntaxError string
  | FsError string
  | SharpError string
  | UnsupportedFormat string
  | CropBothRequired
  | WidthNotPositive
  | HeightNotPositive
  | InvalidPosition string
  | CropNoDimension
  | InvalidDimension string
  | CropWidthExceeds int int
  | CropHeightExceeds int int
  | OptimizeNeither
  | OptimizeBoth
  | QualityOutOfRange

section \<open>The POSIX path module of the runtime\<close>

text \<open>
  \<open>path.resolve\<close>, \<open>path.join\<close>, \<open>path.normalize\<close>, \<open>path.dirname\<close>, \<open>path.basename\<close>,
  \<open>path.extname\<close> and \<open>path.relative\<close> as Node.js defines them for POSIX paths. The working
  directory, which \<open>path.resolve\<close> and \<open>path.relative\<close> read from the process, is an
  explicit argument.
\<close>

fun split_slash :: "string \<Rightarrow> string list" where
  "split_slash [] = [[]]"
| "split_slash (c # cs) =
     (if c = CHR ''/'' then [] # split_slash cs
      else (case split_slash cs of [] \<Rightarrow> [[c]] | s # ss \<Rightarrow> (c # s) # ss))"

fun join_slash :: "string list \<Rightarrow> string" where
  "join_slash [] = []"
| "join_slash [s] = s"
| "join_slash (s # t # ss) = s @ CHR ''/'' # join_slash (t # ss)"

text \<open>
  One segment of \<open>normalizeString\<close>: empty segments and \<open>.\<close> are dropped, \<open>..\<close> removes the
  segment before it, or is kept when there is none to remove and the path is relative.
\<close>

definition normalize_step :: "bool \<Rightarrow> string list \<Rightarrow> string \<Rightarrow> string list" where
  "normalize_step allowAboveRoot res seg =
     (if seg = [] \<or> seg = ''.'' then res
      else if seg = ''..'' then
        (if res \<noteq> [] \<and> last res \<noteq> ''..'' then butlast res
         else if allowAboveRoot then res @ [''..''] else res)
      else res @ [seg])"

definition normalizeString :: "string \<Rightarrow> bool \<Rightarrow> string" where
  "normalizeString path allowAboveRoot =
     join_slash (foldl (normalize_step allowAboveRoot) [] (split_slash path))"

definition path_normalize :: "string \<Rightarrow> string" where
  "path_normalize path =
     (if path = [] then ''.''
      else let isAbsolute = (hd path = CHR ''/'');
               trailingSeparator = (last path = CHR ''/'');
               p = normalizeString path (\<not> isAbsolute)
           in if p = [] then (if isAbsolute then ''/'' else if trailingSeparator then ''./'' else ''.'')
              else (if isAbsolute then ''/'' else []) @ p @ (if trailingSeparator then ''/'' else []))"

definition path_join :: "string list \<Rightarrow> string" where
  "path_join args =
     (let parts = filter (\<lambda>a. a \<noteq> []) args
      in if parts = [] then ''.'' else path_normalize (join_slash parts))"

text \<open>
  \<open>path.resolve\<close> reads its arguments from the right, then the working directory, until the
  path collected so far is absolute.
\<close>

fun resolve_concat :: "string list \<Rightarrow> string \<Rightarrow> string \<times> bool" where
  "resolve_concat [] resolvedPath = (resolvedPath, False)"
| "resolve_concat (p # ps) resolvedPath =
     (if p = [] then resolve_concat ps resolvedPath
      else if hd p = CHR ''/'' then (p @ CHR ''/'' # resolvedPath, True)
      else resolve_concat ps (p @ CHR ''/'' # resolvedPath))"

definition path_resolve :: "string \<Rightarrow> string list \<Rightarrow> string" where
  "path_resolve wd args =
     (case resolve_concat (rev args @ [wd]) [] of
        (resolvedPath, resolvedAbsolute) \<Rightarrow>
          if resolvedAbsolute then CHR ''/'' # normalizeString resolvedPath False
          else (let r = normalizeString resolvedPath True in if r \<noteq> [] then r else ''.''))"

text \<open>The last component of a path, trailing separators ignored.\<close>

definition last_component :: "string \<Rightarrow> string" where
  "last_component path =
     rev (takeWhile (\<lambda>c. c \<noteq> CHR ''/'') (dropWhile (\<lambda>c. c = CHR ''/'') (rev path)))"

definition path_dirname :: "string \<Rightarrow> string" where
  "path_dirname path =
     (if path = [] then ''.''
      else let hasRoot = (hd path = CHR ''/'');
               r = dropWhile (\<lambda>c. c \<noteq> CHR ''/'') (dropWhile (\<lambda>c. c = CHR ''/'') (rev (tl path)))
           in if r = [] then (if hasRoot then ''/'' else ''.'')
              else if hasRoot \<and> tl r = [] then ''//''
              else hd path # rev (tl r))"

text \<open>
  The extension runs from the last dot of the last component to its end; there is none when
  the component has no dot, starts with its only dot, or is \<open>..\<close>.
\<close>

definition path_extname :: "string \<Rightarrow> string" where
  "path_extname path =
     (let r = rev (last_component path);
          after = takeWhile (\<lambda>c. c \<noteq> CHR ''.'') r;
          rest = dropWhile (\<lambda>c. c \<noteq> CHR ''.'') r
      in if rest = [] then []
         else if tl rest = [] then []
         else if tl rest = ''.'' \<and> after = [] then []
         else CHR ''.'' # rev after)"

definition ends_with :: "string \<Rightarrow> string \<Rightarrow> bool" where
  "ends_with s suffix = (length suffix \<le> length s \<and> drop (length s - length suffix) s = suffix)"

text \<open>
  \<open>path.basename(path, suffix)\<close>; the empty suffix stands for the call with one argument.
  A suffix is removed only from a component that is longer than the suffix.
\<close>

definition path_basename :: "string \<Rightarrow> string \<Rightarrow> string" where
  "path_basename path suffix =
     (let comp = last_component path
      in if suffix = [] \<or> length path < length suffix then comp
         else if suffix = path then []
         else if comp = [] then path
         else if ends_with comp suffix then
           (if comp = suffix then comp else take (length comp - length suffix) comp)
         else if ends_with suffix comp then
           comp @ takeWhile (\<lambda>c. c = CHR ''/'') (rev path)
         else comp)"

definition path_segments :: "string \<Rightarrow> string list" where
  "path_segments p = filter (\<lambda>s. s \<noteq> []) (split_slash p)"

fun drop_common :: "string list \<Rightarrow> string list \<Rightarrow> string list \<times> string list" where
  "drop_common (x # xs) (y # ys) = (if x = y then drop_common xs ys else (x # xs, y # ys))"
| "drop_common xs ys = (xs, ys)"

text \<open>
  \<open>path.relative\<close>: both paths are resolved, their common leading segments dropped, and one
  \<open>..\<close> is written for each segment left of \<open>from\<close>.
\<close>

definition path_relative :: "string \<Rightarrow> string \<Rightarrow> string \<Rightarrow> string" where
  "path_relative wd from to =
     (if from = to then []
      else let f = path_resolve wd [from]; t = path_resolve wd [to]
           in if f = t then []
              else (case drop_common (path_segments f) (path_segments t) of
                      (fs, ts) \<Rightarrow> join_slash (map (\<lambda>_. ''..'') fs @ ts)))"

text \<open>
  Absolute normalized paths: \<open>render\<close> writes a list of segments as the path from the
  root; a segment is a file name (not empty, no separator, neither \<open>.\<close> nor \<open>..\<close>).
\<close>

definition valid_seg :: "string \<Rightarrow> bool" where
  "valid_seg n = (n \<noteq> [] \<and> CHR ''/'' \<notin> set n \<and> n \<noteq> ''.'' \<and> n \<noteq> ''..'')"

definition render :: "string list \<Rightarrow> string" where
  "render segs = CHR ''/'' # join_slash segs"

definition normalized_absolute :: "string \<Rightarrow> bool" where
  "normalized_absolute p =
     (p = render (path_segments p) \<and> list_all valid_seg (path_segments p))"

section \<open>The file system\<close>

text \<open>
  The file system is the tree under the root directory. A directory lists its entries in
  the order \<open>readdirSync\<close> returns them; \<open>Unreadable\<close> is a directory that cannot be
  listed, \<open>Other\<close> an entry that is neither a regular file nor a directory (a symbolic link
  as \<open>withFileTypes\<close> reports it, a socket, a device).
\<close>

datatype node = File | Dir "(string \<times> node) list" | Unreadable | Other

fun lookup :: "node \<Rightarrow> string list \<Rightarrow> node option" where
  "lookup n [] = Some n"
| "lookup (Dir entries) (s # ss) =
     (case map_of entries s of None \<Rightarrow> None | Some child \<Rightarrow> lookup child ss)"
| "lookup n (s # ss) = None"

text \<open>
  \<open>fs.existsSync(p) ? fs.statSync(p) : null\<close>, for the absolute normalized paths the
  program passes.
\<close>

definition stat :: "node \<Rightarrow> string \<Rightarrow> node option" where
  "stat fs p = lookup fs (path_segments p)"

definition existsSync :: "node \<Rightarrow> string \<Rightarrow> bool" where
  "existsSync fs p = (stat fs p \<noteq> None)"

fun isDirectory_node :: "node \<Rightarrow> bool" where
  "isDirectory_node (Dir entries) = True"
| "isDirectory_node Unreadable = True"
| "isDirectory_node n = False"

text \<open>\<open>stat && stat.isDirectory()\<close> and \<open>stat.isFile()\<close>.\<close>

definition stat_isDirectory :: "node option \<Rightarrow> bool" where
  "stat_isDirectory st = (case st of None \<Rightarrow> False | Some n \<Rightarrow> isDirectory_node n)"

definition stat_isFile :: "node option \<Rightarrow> bool" where
  "stat_isFile st = (st = Some File)"

text \<open>\<open>fs.mkdirSync(p, {recursive: true})\<close>: the missing directories of the path are created.\<close>

fun new_dirs :: "string list \<Rightarrow> node" where
  "new_dirs [] = Dir []"
| "new_dirs (s # ss) = Dir [(s, new_dirs ss)]"

fun replace_entry :: "string \<Rightarrow> node \<Rightarrow> (string \<times> node) list \<Rightarrow> (string \<times> node) list" where
  "replace_entry s c [] = []"
| "replace_entry s c ((k, v) # es) = (if k = s then (k, c) # es else (k, v) # replace_entry s c es)"

fun mkdirp :: "node \<Rightarrow> string list \<Rightarrow> error + node" where
  "mkdirp (Dir entries) [] = Inr (Dir entries)"
| "mkdirp Unreadable [] = Inr Unreadable"
| "mkdirp n [] = Inl (FsError ''EEXIST'')"
| "mkdirp (Dir entries) (s # ss) =
     (case map_of entries s of
        None \<Rightarrow> Inr (Dir (entries @ [(s, new_dirs ss)]))
      | Some child \<Rightarrow>
          (case mkdirp child ss of
             Inl e \<Rightarrow> Inl e
           | Inr child' \<Rightarrow> Inr (Dir (replace_entry s child' entries))))"
| "mkdirp Unreadable (s # ss) = Inl (FsError ''EACCES'')"
| "mkdirp n (s # ss) = Inl (FsError ''ENOTDIR'')"

section \<open>The image library and the rest of the runtime\<close>

text \<open>
  The image library is a collaborator outside the program. The program builds a pipeline,
  a list of the operations it asks for, and hands it to \<open>toFile\<close>:

  \<^item> \<open>ResizeCover w h position\<close>: \<open>resize(w, h, {fit: 'cover', position})\<close>;
  \<^item> \<open>Extract left top width height\<close>: \<open>extract({left, top, width, height})\<close>;
  \<^item> \<open>ToFormat format quality\<close>: \<open>toFormat(format, {quality})\<close>, the quality left out (outer
    \<open>None\<close>) or \<open>NaN\<close> (inner \<open>None\<close>);
  \<^item> \<open>WithMetadataOrientation\<close>: \<open>withMetadata({orientation: 1})\<close>;
  \<^item> \<open>Png level palette\<close>, \<open>WebpLossless\<close>, \<open>WebpQuality q\<close>, \<open>JpegMoz q\<close>: the encoder
    settings of \<open>optimize\<close>.
\<close>

datatype sharp_op =
    ResizeCover int int jsval
  | Extract int int "int option" "int option"
  | ToFormat "string option" "int option option"
  | WithMetadataOrientation
  | Png int bool
  | WebpLossless
  | WebpQuality int
  | JpegMoz int

text \<open>
  What the program takes from its environment, as parameters:

  \<^item> \<open>cwd\<close>: \<open>process.cwd()\<close>;
  \<^item> \<open>regexp_replace source replacement s\<close>: \<open>s.replace(new RegExp(source), replacement)\<close>;
  \<^item> \<open>sharp_metadata fs path\<close>: the pixel width and height that \<open>sharp(path).metadata()\<close>
    reports;
  \<^item> \<open>sharp_toFile fs input pipeline output\<close>: \<open>sharp(input)\<close>, the pipeline, then
    \<open>toFile(output)\<close>; it returns the file system it leaves behind;
  \<^item> \<open>floor_scaled c a b\<close>: \<open>Math.floor(c * (a / b))\<close> in double precision.
\<close>

record runtime =
  cwd :: string
  regexp_replace :: "string \<Rightarrow> string \<Rightarrow> string \<Rightarrow> error + string"
  sharp_metadata :: "node \<Rightarrow> string \<Rightarrow> error + int \<times> int"
  sharp_toFile :: "node \<Rightarrow> string \<Rightarrow> sharp_op list \<Rightarrow> string \<Rightarrow> (error + unit) \<times> node"
  floor_scaled :: "int \<Rightarrow> int \<Rightarrow> int \<Rightarrow> int"

section \<open>Output paths (src/utils/output.js)\<close>

record outputInfo =
  outputBase :: string
  isDirectory :: bool
  isSingleFile :: bool

text \<open>
  \<open>resolveOutputPath(inputs, outOption)\<close>. With an output option that starts with \<open>./\<close> or
  \<open>../\<close> the function reads \<open>inputs[0]\<close>; \<open>path.resolve\<close> raises a \<open>TypeError\<close> when there
  is none.
\<close>

definition resolveOutputPath ::
  "runtime \<Rightarrow> node \<Rightarrow> string list \<Rightarrow> string option \<Rightarrow> error + outputInfo" where
  "resolveOutputPath rt fs inputs outOption =
     (if truthy outOption then
        (let outputPath = the outOption in
         if startsWith outputPath ''./'' \<or> startsWith outputPath ''../'' then
           (case inputs of
              [] \<Rightarrow> Inl (TypeError ''The paths[0] argument must be of type string. Received undefined'')
            | input0 # _ \<Rightarrow>
                (let firstInputAbsolute = path_resolve (cwd rt) [input0];
                     firstInputStat = stat fs firstInputAbsolute;
                     outputPath' =
                       (if stat_isDirectory firstInputStat
                        then path_resolve (cwd rt) [path_dirname firstInputAbsolute, outputPath]
                        else path_resolve (cwd rt) [path_dirname firstInputAbsolute, outputPath])
                 in Inr \<lparr> outputBase = outputPath', isDirectory = True, isSingleFile = False \<rparr>))
         else
           Inr \<lparr> outputBase = path_resolve (cwd rt) [outputPath],
                 isDirectory = True, isSingleFile = False \<rparr>)
      else if length inputs = 1 then
        (let inputPath = path_resolve (cwd rt) [hd inputs];
             st = stat fs inputPath
         in if stat_isDirectory st then
              Inr \<lparr> outputBase = inputPath @ ''-imgwork'', isDirectory = True, isSingleFile = False \<rparr>
            else
              (let dir = path_dirname inputPath;
                   ext = path_extname inputPath;
                   basename = path_basename inputPath ext
               in Inr \<lparr> outputBase = path_join [dir, basename @ ''-imgwork'' @ ext],
                         isDirectory = False, isSingleFile = True \<rparr>))
      else
        Inr \<lparr> outputBase = path_resolve (cwd rt) [cwd rt, ''imgwork-output''],
              isDirectory = True, isSingleFile = False \<rparr>)"

text \<open>
  The loop of \<open>getOutputFilePath\<close> over \<open>allInputs\<close>: it stops at the first input whose
  resolved path the file's path starts with, and yields the base directory (\<open>None\<close> is the
  \<open>null\<close> that \<open>baseDir\<close> keeps when no input matches).
\<close>

fun getOutputFilePath_baseDir :: "runtime \<Rightarrow> node \<Rightarrow> string \<Rightarrow> string list \<Rightarrow> string option" where
  "getOutputFilePath_baseDir rt fs inputFile [] = None"
| "getOutputFilePath_baseDir rt fs inputFile (input # rest) =
     (let inputAbsolute = path_resolve (cwd rt) [input] in
      if startsWith inputFile inputAbsolute then
        (if stat_isDirectory (stat fs inputAbsolute) then Some inputAbsolute
         else Some (path_dirname inputAbsolute))
      else getOutputFilePath_baseDir rt fs inputFile rest)"

definition getOutputFilePath ::
  "runtime \<Rightarrow> node \<Rightarrow> string \<Rightarrow> string list \<Rightarrow> outputInfo \<Rightarrow> string option \<Rightarrow> error + string" where
  "getOutputFilePath rt fs inputFile allInputs info newExtension =
     (if isSingleFile info then
        (if truthy newExtension then
           (let ext = path_extname (outputBase info)
            in regexp_replace rt (ext @ ''$'') (the newExtension) (outputBase info))
         else Inr (outputBase info))
      else
        (let ext = (if truthy newExtension then the newExtension else path_extname inputFile);
             basename = path_basename inputFile (path_extname inputFile);
             found = getOutputFilePath_baseDir rt fs inputFile allInputs;
             baseDir = (if \<not> truthy found then path_dirname inputFile else the found);
             relativePath = path_relative (cwd rt) baseDir (path_dirname inputFile);
             outputDir = path_join [outputBase info, relativePath]
         in Inr (path_join [outputDir, basename @ ext])))"

definition ensureDirectoryExists :: "node \<Rightarrow> string \<Rightarrow> (error + unit) \<times> node" where
  "ensureDirectoryExists fs dirPath =
     (if \<not> existsSync fs dirPath then
        (case mkdirp fs (path_segments dirPath) of
           Inl e \<Rightarrow> (Inl e, fs)
         | Inr fs' \<Rightarrow> (Inr (), fs'))
      else (Inr (), fs))"

section \<open>File discovery (src/utils/files.js)\<close>

definition IMAGE_EXTENSIONS :: "string list" where
  "IMAGE_EXTENSIONS = [''.jpg'', ''.jpeg'', ''.png'', ''.webp'', ''.gif'', ''.tiff'', ''.tif'']"

definition isImageFile :: "string \<Rightarrow> bool" where
  "isImageFile filePath = (toLowerCase (path_extname filePath) \<in> set IMAGE_EXTENSIONS)"

text \<open>The lines discovery writes to the error stream.\<close>

datatype message =
    PathDoesNotExist string
  | SkippingNonImageFile string
  | ErrorReadingDirectory string

text \<open>
  \<open>findImagesInDirectory(dirPath)\<close> takes the node that \<open>dirPath\<close> names: \<open>readdirSync\<close> lists
  the entries of a \<open>Dir\<close> and throws on anything else, which the function catches and
  reports. The recursive call on a subdirectory gets the entry's node, which is what
  \<open>readdirSync\<close> finds at \<open>fullPath\<close>. \<open>findImagesInEntries\<close> is the loop over the entries.
\<close>

fun findImagesInDirectory :: "runtime \<Rightarrow> string \<Rightarrow> node \<Rightarrow> string list \<times> message list"
  and findImagesInEntries :: "runtime \<Rightarrow> string \<Rightarrow> (string \<times> node) list \<Rightarrow> string list \<times> message list"
where
  "findImagesInDirectory rt dirPath (Dir entries) = findImagesInEntries rt dirPath entries"
| "findImagesInDirectory rt dirPath File = ([], [ErrorReadingDirectory dirPath])"
| "findImagesInDirectory rt dirPath Unreadable = ([], [ErrorReadingDirectory dirPath])"
| "findImagesInDirectory rt dirPath Other = ([], [ErrorReadingDirectory dirPath])"
| "findImagesInEntries rt dirPath [] = ([], [])"
| "findImagesInEntries rt dirPath ((name, child) # rest) =
     (let fullPath = path_join [dirPath, name];
          (images, log) =
            (if isDirectory_node child then findImagesInDirectory rt fullPath child
             else if child = File \<and> isImageFile fullPath then ([path_resolve (cwd rt) [fullPath]], [])
             else ([], []));
          (images', log') = findImagesInEntries rt dirPath rest
      in (images @ images', log @ log'))"

fun findImages :: "runtime \<Rightarrow> node \<Rightarrow> string list \<Rightarrow> string list \<times> message list" where
  "findImages rt fs [] = ([], [])"
| "findImages rt fs (inputPath # rest) =
     (let absolutePath = path_resolve (cwd rt) [inputPath];
          (images, log) =
            (if \<not> existsSync fs absolutePath then ([], [PathDoesNotExist inputPath])
             else (let st = stat fs absolutePath in
                   if stat_isDirectory st then findImagesInDirectory rt absolutePath (the st)
                   else if stat_isFile st \<and> isImageFile absolutePath then ([absolutePath], [])
                   else ([], [SkippingNonImageFile inputPath])));
          (images', log') = findImages rt fs rest
      in (images @ images', log @ log'))"

section \<open>The batch (src/processor.js)\<close>

record results =
  total :: nat
  successful :: nat
  failed :: nat
  errors :: "(string \<times> error) list"

text \<open>
  A processing function works on the file system it finds and leaves one behind, whether
  it returns or throws.
\<close>

type_synonym processFunc = "node \<Rightarrow> string \<Rightarrow> string \<Rightarrow> (error + unit) \<times> node"

text \<open>The body of the \<open>try\<close> block of the loop: \<open>Inl\<close> is what the \<open>catch\<close> receives.\<close>

definition processFile ::
  "runtime \<Rightarrow> processFunc \<Rightarrow> string list \<Rightarrow> outputInfo \<Rightarrow> string option
   \<Rightarrow> node \<Rightarrow> string \<Rightarrow> (error + unit) \<times> node" where
  "processFile rt processFunc inputs info newExtension fs inputFile =
     (case getOutputFilePath rt fs inputFile inputs info (or_null newExtension) of
        Inl e \<Rightarrow> (Inl e, fs)
      | Inr outputPath \<Rightarrow>
          (let outputDir = path_dirname outputPath in
           case ensureDirectoryExists fs outputDir of
             (Inl e, fs1) \<Rightarrow> (Inl e, fs1)
           | (Inr _, fs1) \<Rightarrow> processFunc fs1 inputFile outputPath))"

text \<open>The \<open>for\<close> loop over the files, from the file at index \<open>i\<close> on.\<close>

fun processLoop ::
  "runtime \<Rightarrow> processFunc \<Rightarrow> string list \<Rightarrow> outputInfo \<Rightarrow> string option
   \<Rightarrow> string list \<Rightarrow> results \<Rightarrow> node \<Rightarrow> results \<times> node" where
  "processLoop rt processFunc inputs info newExtension [] res fs = (res, fs)"
| "processLoop rt processFunc inputs info newExtension (inputFile # rest) res fs =
     (let fileName = path_basename inputFile [] in
      case processFile rt processFunc inputs info newExtension fs inputFile of
        (Inr _, fs') \<Rightarrow>
          processLoop rt processFunc inputs info newExtension rest
            (res\<lparr> successful := successful res + 1 \<rparr>) fs'
      | (Inl e, fs') \<Rightarrow>
          processLoop rt processFunc inputs info newExtension rest
            (res\<lparr> failed := failed res + 1, errors := errors res @ [(fileName, e)] \<rparr>) fs')"

text \<open>
  \<open>processImages(files, inputs, outputInfo, processFunc, options)\<close>. Of the options the
  function reads \<open>newExtension\<close> only; the processing function is given with the options
  it is called with.
\<close>

definition processImages ::
  "runtime \<Rightarrow> processFunc \<Rightarrow> node \<Rightarrow> string list \<Rightarrow> string list \<Rightarrow> outputInfo \<Rightarrow> string option
   \<Rightarrow> results \<times> node" where
  "processImages rt processFunc fs files inputs info newExtension =
     (let res = \<lparr> total = length files, successful = 0, failed = 0, errors = [] \<rparr> in
      if length files = 0 then (res, fs)
      else processLoop rt processFunc inputs info newExtension files res fs)"

section \<open>Crop (src/commands/crop.js)\<close>

definition POSITION_MAP :: "(string \<times> string) list" where
  "POSITION_MAP =
     [(''center'', ''centre''), (''top'', ''north''), (''bottom'', ''south''), (''left'', ''west''),
      (''right'', ''east''), (''top-left'', ''northwest''), (''top-right'', ''northeast''),
      (''bottom-left'', ''southwest''), (''bottom-right'', ''southeast'')]"

text \<open>
  \<open>POSITION_MAP[pos]\<close>. Of the properties an object literal inherits, \<open>constructor\<close> and
  \<open>__proto__\<close> are the two whose names are lower case, so that a lower-cased \<open>pos\<close> can
  name them; both are objects, hence truthy.
\<close>

definition POSITION_MAP_get :: "string \<Rightarrow> jsval option" where
  "POSITION_MAP_get pos =
     (case map_of POSITION_MAP pos of
        Some v \<Rightarrow> Some (JStr v)
      | None \<Rightarrow> if pos = ''constructor'' \<or> pos = ''__proto__'' then Some JObj else None)"

text \<open>
  The options of \<open>crop\<close>. The command line always gives the position a value (\<open>center\<close>
  unless \<open>--pos\<close> says otherwise).
\<close>

record crop_options =
  opt_width :: "string option"
  opt_height :: "string option"
  opt_position :: string

text \<open>
  The file holds two variants of \<open>cropImage\<close>. The first hands the requested size to the
  library's \<open>resize\<close> with the cover fit.
\<close>

definition cropImage_v1 :: "runtime \<Rightarrow> crop_options \<Rightarrow> processFunc" where
  "cropImage_v1 rt options fs inputPath outputPath =
     (if \<not> truthy (opt_width options) \<or> \<not> truthy (opt_height options) then (Inl CropBothRequired, fs)
      else
        (let w = parseInt (the (opt_width options));
             h = parseInt (the (opt_height options))
         in if w = None \<or> the w \<le> 0 then (Inl WidthNotPositive, fs)
            else if h = None \<or> the h \<le> 0 then (Inl HeightNotPositive, fs)
            else
              (let pos = toLowerCase (opt_position options) in
               case POSITION_MAP_get pos of
                 None \<Rightarrow> (Inl (InvalidPosition (opt_position options)), fs)
               | Some gravity \<Rightarrow>
                   sharp_toFile rt fs inputPath [ResizeCover (the w) (the h) gravity] outputPath)))"

text \<open>The second variant reads the size of the image and extracts a region of it.\<close>

definition parseDimension :: "string option \<Rightarrow> int \<Rightarrow> error + int option" where
  "parseDimension v originalSize =
     (if \<not> truthy v then Inr None
      else
        (let strValue = trim (toLowerCase (the v)) in
         if strValue = ''half'' then Inr (Some (originalSize div 2))
         else if strValue = ''quarter'' then Inr (Some (originalSize div 4))
         else if strValue = ''third'' then Inr (Some (originalSize div 3))
         else
           (let num = parseInt (the v) in
            if num = None \<or> the num \<le> 0 then Inl (InvalidDimension (the v))
            else Inr num)))"

record coords =
  left :: int
  top :: int

text \<open>
  Pixel sizes and offsets are JavaScript numbers holding integers; on that range
  \<open>Math.floor (a / 2)\<close> is \<open>a div 2\<close> on \<open>int\<close> (rounding towards minus infinity). A position
  that is not a string matches no \<open>case\<close> label and takes the \<open>default\<close> branch.
\<close>

definition calculateCropCoordinates :: "int \<Rightarrow> int \<Rightarrow> int \<Rightarrow> int \<Rightarrow> jsval \<Rightarrow> coords" where
  "calculateCropCoordinates imgWidth imgHeight cropWidth cropHeight position =
    (if position = JStr ''center'' \<or> position = JStr ''centre'' then
       \<lparr> left = max 0 ((imgWidth - cropWidth) div 2),
         top = max 0 ((imgHeight - cropHeight) div 2) \<rparr>
     else if position = JStr ''top'' \<or> position = JStr ''north'' then
       \<lparr> left = max 0 ((imgWidth - cropWidth) div 2),
         top = 0 \<rparr>
     else if position = JStr ''bottom'' \<or> position = JStr ''south'' then
       \<lparr> left = max 0 ((imgWidth - cropWidth) div 2),
         top = max 0 (imgHeight - cropHeight) \<rparr>
     else if position = JStr ''left'' \<or> position = JStr ''west'' then
       \<lparr> left = 0,
         top = max 0 ((imgHeight - cropHeight) div 2) \<rparr>
     else if position = JStr ''right'' \<or> position = JStr ''east'' then
       \<lparr> left = max 0 (imgWidth - cropWidth),
         top = max 0 ((imgHeight - cropHeight) div 2) \<rparr>
     else if position = JStr ''top-left'' \<or> position = JStr ''northwest'' then
       \<lparr> left = 0,
         top = 0 \<rparr>
     else if position = JStr ''top-right'' \<or> position = JStr ''northeast'' then
       \<lparr> left = max 0 (imgWidth - cropWidth),
         top = 0 \<rparr>
     else if position = JStr ''bottom-left'' \<or> position = JStr ''southwest'' then
       \<lparr> left = 0,
         top = max 0 (imgHeight - cropHeight) \<rparr>
     else if position = JStr ''bottom-right'' \<or> position = JStr ''southeast'' then
       \<lparr> left = max 0 (imgWidth - cropWidth),
         top = max 0 (imgHeight - cropHeight) \<rparr>
     else
       \<lparr> left = max 0 ((imgWidth - cropWidth) div 2),
         top = max 0 ((imgHeight - cropHeight) div 2) \<rparr>)"

text \<open>
  The crop size after the missing dimension has been derived from the aspect ratio of the
  image: the pair \<open>(cropWidth, cropHeight)\<close> as it stands before the bounds are checked.
\<close>

definition cropImage_size ::
  "runtime \<Rightarrow> int option \<Rightarrow> int option \<Rightarrow> int \<Rightarrow> int \<Rightarrow> int option \<times> int option" where
  "cropImage_size rt cropWidth cropHeight imgWidth imgHeight =
     (if number_truthy cropWidth \<and> \<not> number_truthy cropHeight then
        (cropWidth, Some (floor_scaled rt (the cropWidth) imgHeight imgWidth))
      else if number_truthy cropHeight \<and> \<not> number_truthy cropWidth then
        (Some (floor_scaled rt (the cropHeight) imgWidth imgHeight), cropHeight)
      else (cropWidth, cropHeight))"

definition cropImage_v2 :: "runtime \<Rightarrow> crop_options \<Rightarrow> processFunc" where
  "cropImage_v2 rt options fs inputPath outputPath =
     (if \<not> truthy (opt_width options) \<and> \<not> truthy (opt_height options) then (Inl CropNoDimension, fs)
      else
        (let pos = toLowerCase (opt_position options) in
         case POSITION_MAP_get pos of
           None \<Rightarrow> (Inl (InvalidPosition (opt_position options)), fs)
         | Some gravity \<Rightarrow>
             (case sharp_metadata rt fs inputPath of
                Inl e \<Rightarrow> (Inl e, fs)
              | Inr (imgWidth, imgHeight) \<Rightarrow>
                  (case parseDimension (opt_width options) imgWidth of
                     Inl e \<Rightarrow> (Inl e, fs)
                   | Inr parsedWidth \<Rightarrow>
                       (case parseDimension (opt_height options) imgHeight of
                          Inl e \<Rightarrow> (Inl e, fs)
                        | Inr parsedHeight \<Rightarrow>
                            (case cropImage_size rt parsedWidth parsedHeight imgWidth imgHeight of
                               (cropWidth, cropHeight) \<Rightarrow>
                                 if to_number cropWidth > imgWidth
                                 then (Inl (CropWidthExceeds (to_number cropWidth) imgWidth), fs)
                                 else if to_number cropHeight > imgHeight
                                 then (Inl (CropHeightExceeds (to_number cropHeight) imgHeight), fs)
                                 else
                                   (let c = calculateCropCoordinates imgWidth imgHeight
                                              (to_number cropWidth) (to_number cropHeight) gravity
                                    in sharp_toFile rt fs inputPath
                                         [Extract (left c) (top c) cropWidth cropHeight]
                                         outputPath)))))))"

section \<open>Optimize (src/commands/optimize.js)\<close>

record optimize_options =
  opt_quality :: "string option"
  opt_lossless :: bool

definition detect_format :: "string \<Rightarrow> string option" where
  "detect_format ext =
     (if ext = ''.jpg'' \<or> ext = ''.jpeg'' then Some ''jpeg''
      else if ext = ''.png'' then Some ''png''
      else if ext = ''.webp'' then Some ''webp''
      else if ext = ''.tiff'' \<or> ext = ''.tif'' then Some ''tiff''
      else if ext = ''.gif'' then Some ''gif''
      else None)"

text \<open>
  \<open>Math.round((100 - q) / 10)\<close> rounds halves up: it is \<open>(100 - q + 5) div 10\<close> on integers.
\<close>

definition optimizeImage :: "runtime \<Rightarrow> optimize_options \<Rightarrow> processFunc" where
  "optimizeImage rt options fs inputPath outputPath =
     (if \<not> truthy (opt_quality options) \<and> \<not> opt_lossless options then (Inl OptimizeNeither, fs)
      else if truthy (opt_quality options) \<and> opt_lossless options then (Inl OptimizeBoth, fs)
      else
        (let q = (if truthy (opt_quality options) then parseInt (the (opt_quality options)) else None) in
         if truthy (opt_quality options) \<and> (q = None \<or> the q < 1 \<or> the q > 100)
         then (Inl QualityOutOfRange, fs)
         else
           (let ext = toLowerCase (path_extname inputPath);
                format = detect_format ext;
                pipeline =
                  (if opt_lossless options then
                     [WithMetadataOrientation,
                      (if format = Some ''png'' then Png 9 True
                       else if format = Some ''webp'' then WebpLossless
                       else if format = Some ''jpeg'' then JpegMoz 100
                       else ToFormat format None)]
                   else
                     [if format = Some ''jpeg'' then JpegMoz (the q)
                      else if format = Some ''webp'' then WebpQuality (the q)
                      else if format = Some ''png''
                      then Png (max 0 (min 9 ((100 - the q + 5) div 10))) False
                      else ToFormat format None])
            in sharp_toFile rt fs inputPath pipeline outputPath)))"

section \<open>Convert (src/commands/convert.js)\<close>

record convert_options =
  opt_format :: string
  opt_convert_quality :: "int option"

definition SUPPORTED_FORMATS :: "string list" where
  "SUPPORTED_FORMATS = [''jpeg'', ''jpg'', ''png'', ''webp'', ''tiff'']"

text \<open>The quality is the number that \<open>parseInt\<close> returned, \<open>None\<close> when it is \<open>NaN\<close>.\<close>

definition convertImage :: "runtime \<Rightarrow> convert_options \<Rightarrow> processFunc" where
  "convertImage rt options fs inputPath outputPath =
     (if toLowerCase (opt_format options) \<notin> set SUPPORTED_FORMATS
      then (Inl (UnsupportedFormat (opt_format options)), fs)
      else
        (let normalizedFormat =
               (if toLowerCase (opt_format options) = ''jpg'' then ''jpeg''
                else toLowerCase (opt_format options));
             formatOptions =
               (if normalizedFormat = ''jpeg'' \<or> normalizedFormat = ''webp''
                then Some (opt_convert_quality options) else None)
         in sharp_toFile rt fs inputPath [ToFormat (Some normalizedFormat) formatOptions] outputPath))"

definition getExtensionForFormat :: "string \<Rightarrow> string" where
  "getExtensionForFormat fmt =
     (let normalized = toLowerCase fmt in
      if normalized = ''jpeg'' \<or> normalized = ''jpg'' then ''.jpg'' else ''.'' @ normalized)"

section \<open>The command actions (index.js)\<close>

text \<open>
  One run of a command: the exit status of the process, the summary that \<open>processImages\<close>
  returned (\<open>None\<close> when the action ended before the batch) and the file system the run
  leaves. \<open>process.exit(1)\<close> ends the run with status 1; an action that returns ends it
  with status 0, since nothing sets \<open>process.exitCode\<close>. The action discards the summary;
  the model keeps it so that properties can speak about it.
\<close>

record run =
  exit_code :: nat
  batch :: "results option"
  final_fs :: node

text \<open>\<open>convert --to to_opt --quality quality_opt [--out out_opt]\<close>.\<close>

definition convert_action ::
  "runtime \<Rightarrow> node \<Rightarrow> string list \<Rightarrow> string \<Rightarrow> string \<Rightarrow> string option \<Rightarrow> run" where
  "convert_action rt fs files to_opt quality_opt out_opt =
     (let fmt = to_opt;
          q = parseInt quality_opt;
          images = fst (findImages rt fs files)
      in if length images = 0 then \<lparr> exit_code = 1, batch = None, final_fs = fs \<rparr>
         else
           (case resolveOutputPath rt fs files (or_null out_opt) of
              Inl e \<Rightarrow> \<lparr> exit_code = 1, batch = None, final_fs = fs \<rparr>
            | Inr info \<Rightarrow>
                (let newExtension = getExtensionForFormat fmt;
                     (res, fs') = processImages rt
                        (convertImage rt \<lparr> opt_format = fmt, opt_convert_quality = q \<rparr>)
                        fs images files info (Some newExtension)
                 in \<lparr> exit_code = 0, batch = Some res, final_fs = fs' \<rparr>)))"

text \<open>\<open>optimize [--quality quality_opt] [--lossless] [--out out_opt]\<close>.\<close>

definition optimize_action ::
  "runtime \<Rightarrow> node \<Rightarrow> string list \<Rightarrow> string option \<Rightarrow> bool \<Rightarrow> string option \<Rightarrow> run" where
  "optimize_action rt fs files quality_opt lossless_opt out_opt =
     (if \<not> truthy quality_opt \<and> \<not> lossless_opt
      then \<lparr> exit_code = 1, batch = None, final_fs = fs \<rparr>
      else
        (let images = fst (findImages rt fs files) in
         if length images = 0 then \<lparr> exit_code = 1, batch = None, final_fs = fs \<rparr>
         else
           (case resolveOutputPath rt fs files (or_null out_opt) of
              Inl e \<Rightarrow> \<lparr> exit_code = 1, batch = None, final_fs = fs \<rparr>
            | Inr info \<Rightarrow>
                (let (res, fs') = processImages rt
                        (optimizeImage rt \<lparr> opt_quality = quality_opt, opt_lossless = lossless_opt \<rparr>)
                        fs images files info None
                 in \<lparr> exit_code = 0, batch = Some res, final_fs = fs' \<rparr>))))"

section \<open>An example environment\<close>

text \<open>
  A small file system and a runtime over it, for evaluating the program on concrete
  inputs. The library reports every regular file as a 400 by 300 image and writes its
  output as a regular file into an existing directory; the regular expression covers the
  patterns \<open>$\<close> and a dot followed by letters and digits and \<open>$\<close>.
\<close>

definition example_fs :: node where
  "example_fs =
     Dir [(''w'', Dir [(''images'', Dir [(''a.JPG'', File), (''notes.txt'', File),
                                      (''sub'', Dir [(''b.png'', File)])]),
                     (''photo.jpg'', File)]),
          (''p'', Dir [(''photos'', Dir [(''y.jpg'', File)]),
                     (''photos2'', Dir [(''x.jpg'', File)])])]"

definition example_tree :: node where
  "example_tree = Dir [(''root'', Dir [(''a'', Dir [(''b'', Dir [(''c.jpg'', File)])])])]"

definition example_batch :: node where
  "example_batch =
     Dir [(''w'', Dir [(''batch'', Dir [(''1.jpg'', File), (''2.jpg'', File), (''3.jpg'', File),
                                     (''4.jpg'', File), (''5.jpg'', File)])])]"

fun write_file :: "node \<Rightarrow> string list \<Rightarrow> error + node" where
  "write_file (Dir entries) [s] =
     (case map_of entries s of
        None \<Rightarrow> Inr (Dir (entries @ [(s, File)]))
      | Some File \<Rightarrow> Inr (Dir entries)
      | Some n \<Rightarrow> Inl (SharpError ''unable to open for write''))"
| "write_file (Dir entries) (s # ss) =
     (case map_of entries s of
        None \<Rightarrow> Inl (SharpError ''unable to open for write'')
      | Some child \<Rightarrow>
          (case write_file child ss of
             Inl e \<Rightarrow> Inl e
           | Inr child' \<Rightarrow> Inr (Dir (replace_entry s child' entries))))"
| "write_file n ss = Inl (SharpError ''unable to open for write'')"

definition example_regexp_replace :: "string \<Rightarrow> string \<Rightarrow> string \<Rightarrow> error + string" where
  "example_regexp_replace source replacement s =
     (let literal = tl (butlast source) in
      if source = ''$'' then Inr (s @ replacement)
      else if length source \<le> length s + 1 \<and> ends_with s literal
      then Inr (take (length s + 1 - length source) s @ replacement)
      else Inr s)"

definition example_rt :: runtime where
  "example_rt =
     \<lparr> cwd = ''/w'',
       regexp_replace = example_regexp_replace,
       sharp_metadata = (\<lambda>fs p.
          if stat fs p = Some File then Inr (400, 300)
          else Inl (SharpError ''Input file is missing'')),
       sharp_toFile = (\<lambda>fs i ops out.
          if stat fs i \<noteq> Some File then (Inl (SharpError ''Input file is missing''), fs)
          else (case write_file fs (path_segments out) of
                  Inl e \<Rightarrow> (Inl e, fs)
                | Inr fs' \<Rightarrow> (Inr (), fs'))),
       floor_scaled = (\<lambda>c a b. (c * a) div b) \<rparr>"

text \<open>The same runtime with a library that cannot decode \<open>/w/batch/3.jpg\<close>.\<close>

definition example_corrupt_rt :: runtime where
  "example_corrupt_rt =
     example_rt \<lparr> sharp_toFile := (\<lambda>fs i ops out.
        if i = ''/w/batch/3.jpg''
        then (Inl (SharpError ''Input file contains unsupported image format''), fs)
        else sharp_toFile example_rt fs i ops out) \<rparr>"

section \<open>Notions the properties are stated with\<close>

text \<open>
  One file of a batch, as the specification words its state machine: pending, output
  directory ensured, processing, then success or failed. The output path of the file is
  computed, the directory of that path is ensured on the file system, and the operation
  is applied to the input file and the output path on the file system that this leaves. A
  failure of any of the three steps is the failure of the file.
\<close>

definition attempt ::
  "runtime \<Rightarrow> processFunc \<Rightarrow> string list \<Rightarrow> outputInfo \<Rightarrow> string option
   \<Rightarrow> node \<Rightarrow> string \<Rightarrow> (error + unit) \<times> node" where
  "attempt rt operation inputs target newExtension fs file =
     (case getOutputFilePath rt fs file inputs target (or_null newExtension) of
        Inl e \<Rightarrow> (Inl e, fs)
      | Inr outputPath \<Rightarrow>
          (case ensureDirectoryExists fs (path_dirname outputPath) of
             (Inl e, ensured) \<Rightarrow> (Inl e, ensured)
           | (Inr u, ensured) \<Rightarrow> operation ensured file outputPath))"

text \<open>
  A batch, as the specification words it: every file is attempted, one at a time in the
  order of the list, the first on the file system the batch starts with and each later
  one on the file system its predecessor left, whatever the outcome of the predecessor.
  The result is the outcome of every file, in order, and the file system after the last.
\<close>

fun batch_run ::
  "runtime \<Rightarrow> processFunc \<Rightarrow> string list \<Rightarrow> outputInfo \<Rightarrow> string option
   \<Rightarrow> node \<Rightarrow> string list \<Rightarrow> (error + unit) list \<times> node" where
  "batch_run rt operation inputs target newExtension fs [] = ([], fs)"
| "batch_run rt operation inputs target newExtension fs (file # rest) =
     (case attempt rt operation inputs target newExtension fs file of
        (outcome, fs1) \<Rightarrow>
          (case batch_run rt operation inputs target newExtension fs1 rest of
             (outcomes, fs2) \<Rightarrow> (outcome # outcomes, fs2)))"

text \<open>The (file name, error) pairs of the files that failed, in the order of the files.\<close>

fun failures :: "(string \<times> (error + unit)) list \<Rightarrow> (string \<times> error) list" where
  "failures [] = []"
| "failures ((f, Inl e) # rest) = (path_basename f [], e) # failures rest"
| "failures ((f, Inr u) # rest) = failures rest"

text \<open>
  The owning input of a file, as the specification words it: the first input whose
  resolved path is a prefix of the file's path; and the base the file's directory is taken
  relative to.
\<close>

definition owning_input :: "runtime \<Rightarrow> string \<Rightarrow> string list \<Rightarrow> string option" where
  "owning_input rt file inputs =
     List.find (\<lambda>input. startsWith file (path_resolve (cwd rt) [input])) inputs"

definition relativization_base :: "runtime \<Rightarrow> node \<Rightarrow> string \<Rightarrow> string list \<Rightarrow> string" where
  "relativization_base rt fs file inputs =
     (case owning_input rt file inputs of
        None \<Rightarrow> path_dirname file
      | Some input \<Rightarrow>
          if stat_isDirectory (stat fs (path_resolve (cwd rt) [input]))
          then path_resolve (cwd rt) [input]
          else path_dirname (path_resolve (cwd rt) [input]))"

text \<open>
  A directory contains a file when the segments of its path are the leading segments of
  the file's path.
\<close>

definition path_contains :: "string \<Rightarrow> string \<Rightarrow> bool" where
  "path_contains dir file =
     (take (length (path_segments dir)) (path_segments file) = path_segments dir)"

text \<open>
  The image files of a tree, as the specification words it: the regular files at any depth
  whose name has a recognized extension, each as the list of names leading to it, in
  depth-first order.
\<close>

fun image_paths :: "node \<Rightarrow> string list list"
  and image_paths_entries :: "(string \<times> node) list \<Rightarrow> string list list"
where
  "image_paths (Dir entries) = image_paths_entries entries"
| "image_paths File = []"
| "image_paths Unreadable = []"
| "image_paths Other = []"
| "image_paths_entries [] = []"
| "image_paths_entries ((name, child) # rest) =
     (if isDirectory_node child then map (\<lambda>p. name # p) (image_paths child)
      else if child = File \<and> isImageFile name then [[name]]
      else [])
     @ image_paths_entries rest"

text \<open>
  The number of regular files of a tree, at any depth, whose name satisfies a predicate.
\<close>

fun count_files :: "(string \<Rightarrow> bool) \<Rightarrow> node \<Rightarrow> nat"
  and count_files_entries :: "(string \<Rightarrow> bool) \<Rightarrow> (string \<times> node) list \<Rightarrow> nat"
where
  "count_files P (Dir entries) = count_files_entries P entries"
| "count_files P File = 0"
| "count_files P Unreadable = 0"
| "count_files P Other = 0"
| "count_files_entries P [] = 0"
| "count_files_entries P ((name, child) # rest) =
     (if isDirectory_node child then count_files P child
      else if child = File \<and> P name then 1
      else 0)
     + count_files_entries P rest"

text \<open>
  What one input path contributes to discovery, as the specification words it: nothing
  when the path does not exist, the image files of the tree when it is a directory, the
  file itself when it is a regular file with a recognized extension.
\<close>

definition discovered :: "runtime \<Rightarrow> node \<Rightarrow> string \<Rightarrow> string list" where
  "discovered rt fs inputPath =
     (let p = path_resolve (cwd rt) [inputPath] in
      case stat fs p of
        None \<Rightarrow> []
      | Some n \<Rightarrow>
          if isDirectory_node n then map (\<lambda>q. render (path_segments p @ q)) (image_paths n)
          else if n = File \<and> isImageFile p then [p]
          else [])"

text \<open>A well-formed tree: every entry has a file name.\<close>

fun wf_node :: "node \<Rightarrow> bool"
  and wf_entries :: "(string \<times> node) list \<Rightarrow> bool"
where
  "wf_node (Dir entries) = wf_entries entries"
| "wf_node File = True"
| "wf_node Unreadable = True"
| "wf_node Other = True"
| "wf_entries [] = True"
| "wf_entries ((name, child) # rest) = (valid_seg name \<and> wf_node child \<and> wf_entries rest)"

section \<open>Facts about paths\<close>

text \<open>
  On the absolute normalized paths, which are the \<open>render\<close> of a list of file names, the
  path functions act on the list: \<open>resolve\<close> and \<open>normalize\<close> change nothing, \<open>dirname\<close>
  drops the last name, \<open>basename\<close> returns it, \<open>join\<close> appends names and \<open>relative\<close>
  returns the names that the longer list adds.
\<close>

subsection \<open>Splitting and joining at separators\<close>

lemma split_slash_nonempty [simp]: "split_slash s \<noteq> []"
  by (induction s) (auto split: list.splits)

lemma split_slash_no_slash: "CHR ''/'' \<notin> set s \<Longrightarrow> split_slash s = [s]"
  by (induction s) auto

lemma split_slash_append:
  "split_slash (a @ CHR ''/'' # b) = split_slash a @ split_slash b"
proof (induction a)
  case Nil
  show ?case by simp
next
  case (Cons c a)
  obtain s ss where "split_slash a = s # ss"
    using split_slash_nonempty [of a] by (cases "split_slash a") auto
  with Cons show ?case by simp
qed

lemma split_slash_segments_slash_free:
  "s \<in> set (split_slash p) \<Longrightarrow> CHR ''/'' \<notin> set s"
proof (induction p arbitrary: s)
  case Nil
  then show ?case by simp
next
  case (Cons c p)
  then show ?case
    by (cases "split_slash p") (auto split: if_splits)
qed

lemma join_slash_snoc:
  "join_slash (segs @ [n]) = (if segs = [] then n else join_slash segs @ CHR ''/'' # n)"
  by (induction segs rule: join_slash.induct) auto

lemma join_slash_Cons:
  "join_slash (s # segs) = (if segs = [] then s else s @ CHR ''/'' # join_slash segs)"
  by (cases segs) auto

lemma join_slash_append:
  "a \<noteq> [] \<Longrightarrow> b \<noteq> [] \<Longrightarrow> join_slash (a @ b) = join_slash a @ CHR ''/'' # join_slash b"
  by (induction a rule: join_slash.induct) (auto simp: join_slash_Cons)

lemma join_slash_eq_Nil:
  "list_all (\<lambda>s. s \<noteq> []) segs \<Longrightarrow> join_slash segs = [] \<longleftrightarrow> segs = []"
  by (induction segs rule: join_slash.induct) auto

lemma split_join_slash:
  "segs \<noteq> [] \<Longrightarrow> list_all (\<lambda>s. CHR ''/'' \<notin> set s) segs \<Longrightarrow> split_slash (join_slash segs) = segs"
proof (induction segs rule: join_slash.induct)
  case 1
  then show ?case by simp
next
  case (2 s)
  then show ?case by (simp add: split_slash_no_slash)
next
  case (3 s t ss)
  then show ?case by (simp add: split_slash_append split_slash_no_slash)
qed

lemma valid_segs_slash_free:
  "list_all valid_seg segs \<Longrightarrow> list_all (\<lambda>s. CHR ''/'' \<notin> set s) segs"
  by (induction segs) (auto simp: valid_seg_def)

lemma valid_segs_nonempty:
  "list_all valid_seg segs \<Longrightarrow> list_all (\<lambda>s. s \<noteq> []) segs"
  by (induction segs) (auto simp: valid_seg_def)

lemma normalize_step_valid: "valid_seg n \<Longrightarrow> normalize_step a res n = res @ [n]"
  by (simp add: normalize_step_def valid_seg_def)

lemma normalize_step_empty [simp]: "normalize_step a res [] = res"
  by (simp add: normalize_step_def)

lemma foldl_normalize_valid:
  "list_all valid_seg segs \<Longrightarrow> foldl (normalize_step a) res segs = res @ segs"
  by (induction segs arbitrary: res) (auto simp: normalize_step_valid)

lemma normalize_step_keeps_valid:
  "list_all valid_seg res \<Longrightarrow> CHR ''/'' \<notin> set seg \<Longrightarrow> list_all valid_seg (normalize_step False res seg)"
  by (auto simp: normalize_step_def valid_seg_def list_all_iff dest: in_set_butlastD)

lemma foldl_normalize_keeps_valid:
  "list_all valid_seg res \<Longrightarrow> list_all (\<lambda>s. CHR ''/'' \<notin> set s) segs
   \<Longrightarrow> list_all valid_seg (foldl (normalize_step False) res segs)"
  by (induction segs arbitrary: res) (auto simp: normalize_step_keeps_valid)

lemma normalizeString_valid_segs:
  "\<exists>segs. list_all valid_seg segs \<and> normalizeString p False = join_slash segs"
  unfolding normalizeString_def
  using foldl_normalize_keeps_valid [of "[]" "split_slash p"]
  by (auto simp: list_all_iff dest: split_slash_segments_slash_free)

lemma split_slash_render:
  "list_all valid_seg segs \<Longrightarrow> split_slash (render segs) = [] # (if segs = [] then [[]] else segs)"
  using split_slash_append [of "[]" "join_slash segs"]
  by (auto simp: render_def split_join_slash valid_segs_slash_free)

lemma path_segments_render:
  "list_all valid_seg segs \<Longrightarrow> path_segments (render segs) = segs"
  using valid_segs_nonempty [of segs]
  by (auto simp: path_segments_def split_slash_render list_all_iff filter_id_conv)

lemma normalized_absolute_render: "list_all valid_seg segs \<Longrightarrow> normalized_absolute (render segs)"
  by (simp add: normalized_absolute_def path_segments_render)

lemma normalized_absoluteE:
  assumes "normalized_absolute p"
  obtains segs where "list_all valid_seg segs" and "p = render segs"
  using assms by (auto simp: normalized_absolute_def)

lemma normalizeString_render_slash:
  assumes "list_all valid_seg segs"
  shows "normalizeString (render segs @ CHR ''/'' # rest) a
         = join_slash (foldl (normalize_step a) segs (split_slash rest))"
proof -
  have "split_slash (render segs @ CHR ''/'' # rest)
        = [] # (if segs = [] then [[]] else segs) @ split_slash rest"
    using assms by (simp add: split_slash_append split_slash_render)
  then show ?thesis
    using assms by (auto simp: normalizeString_def foldl_normalize_valid)
qed

lemma normalizeString_render:
  assumes "list_all valid_seg segs"
  shows "normalizeString (render segs) a = join_slash segs"
  using assms by (auto simp: normalizeString_def split_slash_render foldl_normalize_valid)

lemma render_not_Nil [simp]: "render segs \<noteq> []" and hd_render [simp]: "hd (render segs) = CHR ''/''"
  by (simp_all add: render_def)

lemma path_resolve_render:
  assumes "list_all valid_seg segs"
  shows "path_resolve wd [render segs] = render segs"
  using assms normalizeString_render_slash [OF assms, of "[]" False]
  by (simp add: path_resolve_def) (simp add: render_def)

lemma path_resolve_render_rel:
  assumes "list_all valid_seg segs"
  shows "path_resolve wd [render segs, rel]
         = (if rel \<noteq> [] \<and> hd rel = CHR ''/'' then CHR ''/'' # normalizeString (rel @ ''/'') False
            else CHR ''/'' # join_slash (foldl (normalize_step False) segs (split_slash rel)))"
proof (cases "rel = []")
  case True
  then show ?thesis
    using assms normalizeString_render_slash [OF assms, of "[]" False]
    by (simp add: path_resolve_def)
next
  case False
  have "split_slash (rel @ ''/'') = split_slash rel @ [[]]"
    using split_slash_append [of rel "[]"] by simp
  then show ?thesis
    using False assms normalizeString_render_slash [OF assms, of "rel @ ''/''" False]
    by (simp add: path_resolve_def)
qed

subsection \<open>Resolved paths, directory names and last components\<close>

lemma resolve_concat_absolute:
  "wd \<noteq> [] \<Longrightarrow> hd wd = CHR ''/'' \<Longrightarrow> snd (resolve_concat (ps @ [wd]) acc) = True"
  by (induction ps arbitrary: acc) auto

lemma path_resolve_shape:
  assumes "normalized_absolute wd"
  shows "\<exists>segs. list_all valid_seg segs \<and> path_resolve wd args = render segs"
proof -
  from assms obtain c where "wd = render c" by (rule normalized_absoluteE)
  then have "snd (resolve_concat (rev args @ [wd]) []) = True"
    by (intro resolve_concat_absolute) simp_all
  then obtain s where "resolve_concat (rev args @ [wd]) [] = (s, True)"
    by (cases "resolve_concat (rev args @ [wd]) []") auto
  then have "path_resolve wd args = CHR ''/'' # normalizeString s False"
    by (simp add: path_resolve_def)
  with normalizeString_valid_segs [of s] show ?thesis
    by (auto simp: render_def)
qed

lemma path_resolve_not_Nil [simp]: "path_resolve wd args \<noteq> []"
  by (auto simp: path_resolve_def Let_def split: prod.splits)

lemma if_not_Nil: "a \<noteq> [] \<Longrightarrow> b \<noteq> [] \<Longrightarrow> (if c then a else b) \<noteq> []"
  by simp

lemma path_dirname_not_Nil [simp]: "path_dirname p \<noteq> []"
  unfolding path_dirname_def Let_def
  by (intro if_not_Nil) (rule list.distinct)+

lemma render_snoc:
  "list_all valid_seg segs \<Longrightarrow>
   render (segs @ [n]) = (if segs = [] then CHR ''/'' # n else render segs @ CHR ''/'' # n)"
  by (simp add: render_def join_slash_snoc)

lemma dropWhile_slash_rev_valid:
  "valid_seg n \<Longrightarrow> dropWhile (\<lambda>c. c = CHR ''/'') (rev n @ xs) = rev n @ xs"
  by (cases n rule: rev_cases) (auto simp: valid_seg_def)

lemma dropWhile_nonslash_rev_valid:
  "valid_seg n \<Longrightarrow> dropWhile (\<lambda>c. c \<noteq> CHR ''/'') (rev n @ xs) = dropWhile (\<lambda>c. c \<noteq> CHR ''/'') xs"
  by (simp add: dropWhile_append valid_seg_def)

lemma takeWhile_nonslash_rev_valid:
  "valid_seg n \<Longrightarrow> takeWhile (\<lambda>c. c \<noteq> CHR ''/'') (rev n @ CHR ''/'' # xs) = rev n"
  by (simp add: takeWhile_append valid_seg_def)

lemma path_dirname_render_snoc:
  assumes "list_all valid_seg segs" and "valid_seg n"
  shows "path_dirname (render (segs @ [n])) = render segs"
proof (cases "segs = []")
  case True
  then show ?thesis
    using assms(2) dropWhile_slash_rev_valid [OF assms(2), of "[]"]
      dropWhile_nonslash_rev_valid [OF assms(2), of "[]"]
    by (simp add: path_dirname_def render_def)
next
  case False
  have ne: "join_slash segs \<noteq> []"
    using False assms(1) by (simp add: join_slash_eq_Nil valid_segs_nonempty)
  have "render (segs @ [n]) = CHR ''/'' # join_slash segs @ CHR ''/'' # n"
    using False by (simp add: render_def join_slash_snoc)
  then show ?thesis
    using ne dropWhile_slash_rev_valid [OF assms(2), of "CHR ''/'' # rev (join_slash segs)"]
      dropWhile_nonslash_rev_valid [OF assms(2), of "CHR ''/'' # rev (join_slash segs)"]
    by (simp add: path_dirname_def render_def)
qed

lemma path_dirname_root: "path_dirname (render []) = render []"
  by (simp add: path_dirname_def render_def)

lemma last_component_valid:
  assumes "valid_seg n"
  shows "last_component n = n"
proof -
  have t: "takeWhile (\<lambda>c. c \<noteq> CHR ''/'') (rev n) = rev n"
    using assms by (intro takeWhile_eq_all_conv [THEN iffD2]) (auto simp: valid_seg_def)
  have d: "dropWhile (\<lambda>c. c = CHR ''/'') (rev n) = rev n"
    using dropWhile_slash_rev_valid [OF assms, of "[]"] by simp
  show ?thesis
    unfolding last_component_def d t by simp
qed

lemma last_component_slash_valid:
  "valid_seg n \<Longrightarrow> last_component (xs @ CHR ''/'' # n) = n"
  using dropWhile_slash_rev_valid [of n "CHR ''/'' # rev xs"]
    takeWhile_nonslash_rev_valid [of n "rev xs"]
  by (simp add: last_component_def)

lemma last_component_render_snoc:
  assumes "list_all valid_seg segs" and "valid_seg n"
  shows "last_component (render (segs @ [n])) = n"
  using assms last_component_slash_valid [OF assms(2), of "[]"]
    last_component_slash_valid [OF assms(2), of "render segs"]
  by (simp add: render_snoc)

lemma last_component_root: "last_component (render []) = []"
  by (simp add: last_component_def render_def)

lemma path_extname_last_component:
  "last_component p = last_component q \<Longrightarrow> path_extname p = path_extname q"
  by (simp add: path_extname_def)

lemma path_extname_render_snoc:
  assumes "list_all valid_seg segs" and "valid_seg n"
  shows "path_extname (render (segs @ [n])) = path_extname n"
  using assms by (intro path_extname_last_component)
    (simp add: last_component_render_snoc last_component_valid)

subsection \<open>Extensions and base names\<close>

text \<open>The extension is a proper suffix of the component it is taken from.\<close>

lemma extname_decompose:
  assumes "last_component p = n" and "path_extname p \<noteq> []"
  shows "\<exists>stem. stem \<noteq> [] \<and> n = stem @ path_extname p \<and> hd (path_extname p) = CHR ''.''"
proof -
  define r where "r = rev n"
  define after where "after = takeWhile (\<lambda>c. c \<noteq> CHR ''.'') r"
  define rest where "rest = dropWhile (\<lambda>c. c \<noteq> CHR ''.'') r"
  have r: "r = after @ rest" by (simp add: after_def rest_def)
  from assms have rest: "rest \<noteq> []" "tl rest \<noteq> []" and ext: "path_extname p = CHR ''.'' # rev after"
    by (auto simp: path_extname_def Let_def r_def after_def rest_def split: if_splits)
  from rest(1) have "hd rest = CHR ''.''"
    unfolding rest_def using hd_dropWhile [of "\<lambda>c. c \<noteq> CHR ''.''" r] by auto
  with rest(1) have "rest = CHR ''.'' # tl rest" by (cases rest) auto
  with r have "rev r = rev (tl rest) @ CHR ''.'' # rev after"
    by (metis append.assoc append_Cons append_Nil rev.simps(2) rev_append)
  then have "n = rev (tl rest) @ path_extname p" by (simp add: r_def ext)
  with rest(2) ext show ?thesis by auto
qed

lemma ends_with_append [simp]: "ends_with (a @ b) b"
  by (simp add: ends_with_def)

lemma length_last_component: "length (last_component p) \<le> length p"
proof -
  have "length (last_component p) \<le> length (dropWhile (\<lambda>c. c = CHR ''/'') (rev p))"
    unfolding last_component_def length_rev by (rule length_takeWhile_le)
  also have "\<dots> \<le> length (rev p)"
    by (rule length_dropWhile_le)
  finally show ?thesis by simp
qed

lemma path_basename_extname:
  assumes "last_component p = n" and "n \<noteq> []"
  shows "path_basename p (path_extname p) @ path_extname p = n"
proof (cases "path_extname p = []")
  case True
  then show ?thesis using assms by (simp add: path_basename_def)
next
  case False
  from extname_decompose [OF assms(1) False] obtain stem
    where stem: "stem \<noteq> []" "n = stem @ path_extname p" by blast
  have "length n \<le> length p"
    using length_last_component [of p] assms(1) by simp
  moreover have "length n = length stem + length (path_extname p)"
    using arg_cong [OF stem(2), of length] by simp
  moreover have "0 < length stem" using stem(1) by simp
  ultimately have len: "length (path_extname p) < length p" by linarith
  then have neq: "path_extname p \<noteq> p" by auto
  have e: "ends_with n (path_extname p)"
    using ends_with_append [of stem "path_extname p"] stem(2) by simp
  have ne: "n \<noteq> path_extname p"
    using \<open>length n = length stem + length (path_extname p)\<close> \<open>0 < length stem\<close> by auto
  have t: "take (length n - length (path_extname p)) n = stem"
    using \<open>length n = length stem + length (path_extname p)\<close>
      arg_cong [OF stem(2), of "take (length stem)"] by simp
  have "path_basename p (path_extname p) = stem"
    using False len neq e ne t assms by (simp add: path_basename_def Let_def)
  with stem show ?thesis by simp
qed

lemma path_basename_plain: "path_basename p [] = last_component p"
  by (simp add: path_basename_def)

lemma path_basename_render_snoc:
  assumes "list_all valid_seg segs" and "valid_seg n"
  shows "path_basename (render (segs @ [n])) [] = n"
  using assms by (simp add: path_basename_plain last_component_render_snoc)

subsection \<open>Joining and relative paths\<close>

lemma last_valid_seg: "valid_seg n \<Longrightarrow> last (xs @ n) \<noteq> CHR ''/''"
  by (cases n rule: rev_cases) (auto simp: valid_seg_def)

lemma last_join_slash:
  assumes "list_all valid_seg ds" and "ds \<noteq> []"
  shows "last (xs @ join_slash ds) \<noteq> CHR ''/''"
proof -
  from assms(2) obtain ys n where ds: "ds = ys @ [n]"
    by (cases ds rule: rev_cases) auto
  with assms(1) have v: "valid_seg n" by simp
  show ?thesis
  proof (cases "ys = []")
    case True
    then show ?thesis using last_valid_seg [OF v, of xs] ds by simp
  next
    case False
    then show ?thesis
      using last_valid_seg [OF v, of "xs @ join_slash ys @ ''/''"] ds
      by (simp add: join_slash_snoc)
  qed
qed

lemma path_normalize_render:
  assumes "list_all valid_seg segs"
  shows "path_normalize (render segs) = render segs"
proof (cases "segs = []")
  case True
  then show ?thesis
    by (simp add: path_normalize_def render_def normalizeString_def normalize_step_def)
next
  case False
  have ne: "join_slash segs \<noteq> []"
    using False assms by (simp add: join_slash_eq_Nil valid_segs_nonempty)
  have "last (render segs) \<noteq> CHR ''/''"
    using last_join_slash [OF assms False, of "''/''"] by (simp add: render_def)
  then show ?thesis
    using ne normalizeString_render [OF assms, of False]
    by (simp add: path_normalize_def Let_def) (simp add: render_def)
qed

lemma path_join_render:
  assumes "list_all valid_seg out" and "list_all valid_seg ds"
  shows "path_join [render out, join_slash ds] = render (out @ ds)"
proof (cases "ds = []")
  case True
  then show ?thesis
    using assms(1) by (simp add: path_join_def path_normalize_render)
next
  case False
  let ?rel = "join_slash ds"
  let ?joined = "render out @ CHR ''/'' # ?rel"
  have rel: "?rel \<noteq> []"
    using False assms(2) by (simp add: join_slash_eq_Nil valid_segs_nonempty)
  have parts: "path_join [render out, ?rel] = path_normalize ?joined"
    using rel by (simp add: path_join_def)
  have tr: "last ?joined \<noteq> CHR ''/''"
    using last_join_slash [OF assms(2) False, of "render out @ ''/''"] by simp
  have "normalizeString ?joined False = join_slash (out @ ds)"
    using normalizeString_render_slash [OF assms(1), of ?rel False] assms(2) False
    by (simp add: split_join_slash valid_segs_slash_free foldl_normalize_valid)
  moreover have "join_slash (out @ ds) \<noteq> []"
    using False assms by (simp add: join_slash_eq_Nil valid_segs_nonempty)
  ultimately have "path_normalize ?joined = render (out @ ds)"
    using tr by (simp add: path_normalize_def Let_def) (simp add: render_def)
  with parts show ?thesis by simp
qed

lemma path_join_render_name:
  assumes "list_all valid_seg out" and "valid_seg n"
  shows "path_join [render out, n] = render (out @ [n])"
  using path_join_render [OF assms(1), of "[n]"] assms(2) by simp

lemma drop_common_Nil [simp]: "drop_common [] b = ([], b)"
  by (cases b) simp_all

lemma drop_common_append: "drop_common a (a @ b) = ([], b)"
  by (induction a) simp_all

lemma length_join_slash_append:
  "list_all valid_seg b \<Longrightarrow> b \<noteq> [] \<Longrightarrow> length (join_slash a) < length (join_slash (a @ b))"
proof (induction a rule: join_slash.induct)
  case 1
  then show ?case
    by (cases b) (auto simp: join_slash_Cons valid_seg_def)
next
  case (2 s)
  then show ?case
    by (cases b) (auto simp: join_slash_Cons)
next
  case (3 s t ss)
  then show ?case by simp
qed

lemma render_append_neq:
  "list_all valid_seg b \<Longrightarrow> b \<noteq> [] \<Longrightarrow> render a \<noteq> render (a @ b)"
  using length_join_slash_append [of b a] by (auto simp: render_def)

lemma path_relative_render:
  assumes "list_all valid_seg a" and "list_all valid_seg b"
  shows "path_relative wd (render a) (render (a @ b)) = join_slash b"
proof (cases "b = []")
  case True
  then show ?thesis by (simp add: path_relative_def)
next
  case False
  have ab: "list_all valid_seg (a @ b)" using assms by simp
  have neq: "render a \<noteq> render (a @ b)"
    using assms(2) False by (rule render_append_neq)
  show ?thesis
    using neq
    by (simp add: path_relative_def path_resolve_render [OF assms(1)] path_resolve_render [OF ab]
        path_segments_render [OF assms(1)] path_segments_render [OF ab] drop_common_append Let_def)
qed

lemma startsWith_append [simp]: "startsWith (a @ b) a"
  by (simp add: startsWith_def)

lemma startsWith_render:
  assumes "list_all valid_seg a"
  shows "startsWith (render (a @ b)) (render a)"
proof (cases "a = [] \<or> b = []")
  case True
  then show ?thesis by (auto simp: startsWith_def render_def)
next
  case False
  then have "render (a @ b) = render a @ CHR ''/'' # join_slash b"
    by (simp add: render_def join_slash_append)
  then show ?thesis by simp
qed

section \<open>Properties of the program\<close>

subsection \<open>Crop coordinates stay inside the image\<close>

lemma half_gap_bounds:
  fixes a c :: int
  assumes "c \<le> a"
  shows "0 \<le> max 0 ((a - c) div 2)" and "max 0 ((a - c) div 2) \<le> a - c"
  using assms by auto

lemma full_gap_bounds:
  fixes a c :: int
  assumes "c \<le> a"
  shows "0 \<le> max 0 (a - c)" and "max 0 (a - c) \<le> a - c"
  using assms by auto

lemma crop_coordinates_bounds:
  assumes "cropWidth \<le> imgWidth" and "cropHeight \<le> imgHeight"
  shows "0 \<le> left (calculateCropCoordinates imgWidth imgHeight cropWidth cropHeight pos)"
    and "left (calculateCropCoordinates imgWidth imgHeight cropWidth cropHeight pos)
         \<le> imgWidth - cropWidth"
    and "0 \<le> top (calculateCropCoordinates imgWidth imgHeight cropWidth cropHeight pos)"
    and "top (calculateCropCoordinates imgWidth imgHeight cropWidth cropHeight pos)
         \<le> imgHeight - cropHeight"
proof -
  note w = half_gap_bounds [OF assms(1)] full_gap_bounds [OF assms(1)]
  note h = half_gap_bounds [OF assms(2)] full_gap_bounds [OF assms(2)]
  show "0 \<le> left (calculateCropCoordinates imgWidth imgHeight cropWidth cropHeight pos)"
    and "left (calculateCropCoordinates imgWidth imgHeight cropWidth cropHeight pos)
         \<le> imgWidth - cropWidth"
    unfolding calculateCropCoordinates_def using w assms(1) by simp_all
  show "0 \<le> top (calculateCropCoordinates imgWidth imgHeight cropWidth cropHeight pos)"
    and "top (calculateCropCoordinates imgWidth imgHeight cropWidth cropHeight pos)
         \<le> imgHeight - cropHeight"
    unfolding calculateCropCoordinates_def using h assms(2) by simp_all
qed

text \<open>
  The region that the second variant of \<open>cropImage\<close> asks the library to extract: when
  the size passes the bounds checks, the call it makes is an \<open>extract\<close> of a rectangle
  inside the image.
\<close>

lemma cropImage_v2_extract_within_image:
  assumes "truthy w \<or> truthy h"
    and "POSITION_MAP_get (toLowerCase pos) = Some gravity"
    and "sharp_metadata rt fs inputPath = Inr (imgWidth, imgHeight)"
    and "parseDimension w imgWidth = Inr parsedWidth"
    and "parseDimension h imgHeight = Inr parsedHeight"
    and "cropImage_size rt parsedWidth parsedHeight imgWidth imgHeight = (cropWidth, cropHeight)"
    and "to_number cropWidth \<le> imgWidth" and "to_number cropHeight \<le> imgHeight"
  shows "\<exists>l t. cropImage_v2 rt \<lparr> opt_width = w, opt_height = h, opt_position = pos \<rparr>
                  fs inputPath outputPath
                = sharp_toFile rt fs inputPath [Extract l t cropWidth cropHeight] outputPath
             \<and> 0 \<le> l \<and> l + to_number cropWidth \<le> imgWidth
             \<and> 0 \<le> t \<and> t + to_number cropHeight \<le> imgHeight"
proof -
  let ?c = "calculateCropCoordinates imgWidth imgHeight (to_number cropWidth)
              (to_number cropHeight) gravity"
  have "cropImage_v2 rt \<lparr> opt_width = w, opt_height = h, opt_position = pos \<rparr>
          fs inputPath outputPath
        = sharp_toFile rt fs inputPath [Extract (left ?c) (top ?c) cropWidth cropHeight] outputPath"
    using assms by (auto simp: cropImage_v2_def Let_def)
  moreover have "0 \<le> left ?c" "left ?c + to_number cropWidth \<le> imgWidth"
    "0 \<le> top ?c" "top ?c + to_number cropHeight \<le> imgHeight"
    using crop_coordinates_bounds [OF assms(7,8), of gravity] by simp_all
  ultimately show ?thesis by blast
qed

text \<open>
  Claim C9. For every position value and all dimensions with
  \<open>0 < cropWidth \<le> imgWidth\<close> and \<open>0 < cropHeight \<le> imgHeight\<close>, the coordinates returned
  by \<open>calculateCropCoordinates\<close> satisfy \<open>0 \<le> left \<le> imgWidth - cropWidth\<close> and
  \<open>0 \<le> top \<le> imgHeight - cropHeight\<close>: the rectangle
  \<open>(left, top, cropWidth, cropHeight)\<close> lies entirely within the source image.
\<close>

theorem calculateCropCoordinates_within_image:
  assumes "0 < cropWidth" and "cropWidth \<le> imgWidth"
    and "0 < cropHeight" and "cropHeight \<le> imgHeight"
  shows "0 \<le> left (calculateCropCoordinates imgWidth imgHeight cropWidth cropHeight pos)
       \<and> left (calculateCropCoordinates imgWidth imgHeight cropWidth cropHeight pos)
           \<le> imgWidth - cropWidth
       \<and> 0 \<le> top (calculateCropCoordinates imgWidth imgHeight cropWidth cropHeight pos)
       \<and> top (calculateCropCoordinates imgWidth imgHeight cropWidth cropHeight pos)
           \<le> imgHeight - cropHeight
       \<and> left (calculateCropCoordinates imgWidth imgHeight cropWidth cropHeight pos)
           + cropWidth \<le> imgWidth
       \<and> top (calculateCropCoordinates imgWidth imgHeight cropWidth cropHeight pos)
           + cropHeight \<le> imgHeight"
  using crop_coordinates_bounds [OF assms(2,4), of pos] by simp

theorem calculateCropCoordinates_within_image_witness:
  "(0::int) < 800 \<and> (800::int) \<le> 2400 \<and> (0::int) < 600 \<and> (600::int) \<le> 1600
   \<and> calculateCropCoordinates 2400 1600 800 600 (JStr ''south'')
       = \<lparr> left = 800, top = 1000 \<rparr>
   \<and> 0 \<le> left (calculateCropCoordinates 2400 1600 800 600 (JStr ''south''))
   \<and> left (calculateCropCoordinates 2400 1600 800 600 (JStr ''south'')) \<le> 2400 - 800
   \<and> 0 \<le> top (calculateCropCoordinates 2400 1600 800 600 (JStr ''south''))
   \<and> top (calculateCropCoordinates 2400 1600 800 600 (JStr ''south'')) \<le> 1600 - 600"
  using calculateCropCoordinates_within_image [of 800 2400 600 1600 "JStr ''south''"]
  by (simp add: calculateCropCoordinates_def)

subsection \<open>The batch summary\<close>

lemma failures_append: "failures (xs @ ys) = failures xs @ failures ys"
  by (induction xs rule: failures.induct) simp_all

lemma processFile_attempt:
  "processFile rt processFunc inputs info newExtension fs inputFile
   = attempt rt processFunc inputs info newExtension fs inputFile"
  by (simp add: processFile_def attempt_def Let_def split: sum.splits)

lemma length_batch_run [simp]:
  "length (fst (batch_run rt processFunc inputs info newExtension fs files)) = length files"
  by (induction files arbitrary: fs) (simp_all add: split_beta)

lemma length_failures: "length (failures zs) = length (filter isl (map snd zs))"
  by (induction zs rule: failures.induct) simp_all

text \<open>
  The loop from any summary: the counters grow by the numbers of successes and failures of
  the remaining files, the errors by their failures, and the file system is the one the
  last file leaves.
\<close>

lemma processLoop_batch_run:
  "processLoop rt processFunc inputs info newExtension files res fs =
     (case batch_run rt processFunc inputs info newExtension fs files of
        (outs, fs') \<Rightarrow>
          (res\<lparr> successful := successful res + length (filter (\<lambda>r. \<not> isl r) outs),
                failed := failed res + length (filter isl outs),
                errors := errors res @ failures (zip files outs) \<rparr>, fs'))"
proof (induction files arbitrary: res fs)
  case Nil
  show ?case by simp
next
  case (Cons f files)
  obtain r fs1 where step: "attempt rt processFunc inputs info newExtension fs f = (r, fs1)"
    by (cases "attempt rt processFunc inputs info newExtension fs f")
  obtain outs fs2 where rest: "batch_run rt processFunc inputs info newExtension fs1 files = (outs, fs2)"
    by (cases "batch_run rt processFunc inputs info newExtension fs1 files")
  show ?case
  proof (cases r)
    case (Inl e)
    with step rest Cons.IH show ?thesis
      by (simp add: processFile_attempt)
  next
    case (Inr u)
    with step rest Cons.IH show ?thesis
      by (simp add: processFile_attempt)
  qed
qed

text \<open>
  Claim C4. For every list of files, \<open>processImages\<close> processes them one after the other
  in the order of the list and never stops at a failure: it returns what the batch of the
  specification returns, in which every file is attempted (its output path computed, its
  output directory ensured, the operation applied) and has an outcome. The summary has
  \<open>total\<close> equal to the number of files, \<open>successful\<close> and \<open>failed\<close> counting the files that
  succeeded and failed, so that \<open>successful + failed = total\<close>, and \<open>errors\<close> holding exactly
  one (file name, error) pair for each failed file, in processing order; the file system
  is the one the last file leaves.
\<close>

theorem processImages_batch_result:
  "processImages rt processFunc fs files inputs info newExtension =
     (\<lparr> total = length files,
        successful = length (filter (\<lambda>r. \<not> isl r)
                       (fst (batch_run rt processFunc inputs info newExtension fs files))),
        failed = length (filter isl
                       (fst (batch_run rt processFunc inputs info newExtension fs files))),
        errors = failures (zip files
                       (fst (batch_run rt processFunc inputs info newExtension fs files))) \<rparr>,
      snd (batch_run rt processFunc inputs info newExtension fs files))
   \<and> length (fst (batch_run rt processFunc inputs info newExtension fs files)) = length files
   \<and> length (filter (\<lambda>r. \<not> isl r)
         (fst (batch_run rt processFunc inputs info newExtension fs files)))
       + length (filter isl (fst (batch_run rt processFunc inputs info newExtension fs files)))
       = length files
   \<and> length (failures (zip files
         (fst (batch_run rt processFunc inputs info newExtension fs files))))
       = length (filter isl (fst (batch_run rt processFunc inputs info newExtension fs files)))"
proof (intro conjI)
  let ?run = "batch_run rt processFunc inputs info newExtension fs files"
  show "processImages rt processFunc fs files inputs info newExtension =
     (\<lparr> total = length files,
        successful = length (filter (\<lambda>r. \<not> isl r) (fst ?run)),
        failed = length (filter isl (fst ?run)),
        errors = failures (zip files (fst ?run)) \<rparr>,
      snd ?run)"
  proof (cases files)
    case Nil
    then show ?thesis by (simp add: processImages_def)
  next
    case (Cons f rest)
    then show ?thesis
      by (simp add: processImages_def Let_def processLoop_batch_run split_beta)
  qed
  show "length (fst ?run) = length files" by simp
  show "length (filter (\<lambda>r. \<not> isl r) (fst ?run)) + length (filter isl (fst ?run))
        = length files"
    using sum_length_filter_compl [of isl "fst ?run"] by simp
  show "length (failures (zip files (fst ?run))) = length (filter isl (fst ?run))"
    by (simp add: length_failures)
qed

text \<open>
  A batch of five files of which the third cannot be decoded: four succeed, one fails,
  the error names the third file, and the outputs of the fourth and fifth are written.
\<close>

theorem processImages_batch_result_witness:
  "processImages example_corrupt_rt
     (optimizeImage example_corrupt_rt \<lparr> opt_quality = Some ''80'', opt_lossless = False \<rparr>)
     example_batch
     [''/w/batch/1.jpg'', ''/w/batch/2.jpg'', ''/w/batch/3.jpg'', ''/w/batch/4.jpg'',
      ''/w/batch/5.jpg'']
     [''batch'']
     \<lparr> outputBase = ''/w/batch-imgwork'', isDirectory = True, isSingleFile = False \<rparr> None
   = (\<lparr> total = 5, successful = 4, failed = 1,
        errors = [(''3.jpg'', SharpError ''Input file contains unsupported image format'')] \<rparr>,
      Dir [(''w'', Dir [(''batch'', Dir [(''1.jpg'', File), (''2.jpg'', File), (''3.jpg'', File),
                                      (''4.jpg'', File), (''5.jpg'', File)]),
                      (''batch-imgwork'', Dir [(''1.jpg'', File), (''2.jpg'', File),
                                              (''4.jpg'', File), (''5.jpg'', File)])])])"
  unfolding processImages_batch_result [THEN conjunct1]
  by code_simp

subsection \<open>The output target\<close>

lemma path_resolve_render_rel_any:
  assumes "list_all valid_seg segs"
  shows "path_resolve wd [render segs, rel] = path_resolve wd' [render segs, rel]"
  by (simp only: path_resolve_render_rel [OF assms])

lemma path_dirname_render:
  assumes "list_all valid_seg segs"
  shows "path_dirname (render segs) = render (butlast segs)"
proof (cases segs rule: rev_cases)
  case Nil
  then show ?thesis by (simp add: path_dirname_root)
next
  case (snoc ss n)
  with assms show ?thesis by (simp add: path_dirname_render_snoc)
qed

lemma valid_segs_butlast: "list_all valid_seg segs \<Longrightarrow> list_all valid_seg (butlast segs)"
  by (auto simp: list_all_iff dest: in_set_butlastD)

text \<open>
  Claim C7. When an explicit output path is given (and there is a first input, as the command
  line guarantees), \<open>resolveOutputPath\<close> returns a directory tree, never a single file,
  however many inputs there are and whatever they are. A path that begins with \<open>./\<close> or
  \<open>../\<close> is resolved against the parent directory of the first input: once that input is
  resolved, the result is the same under every working directory. Any other path is
  resolved against the working directory.
\<close>

theorem resolveOutputPath_explicit:
  assumes "truthy out" and "inputs \<noteq> []"
  shows "resolveOutputPath rt fs inputs out =
           Inr \<lparr> outputBase =
                   (if startsWith (the out) ''./'' \<or> startsWith (the out) ''../''
                    then path_resolve (cwd rt)
                           [path_dirname (path_resolve (cwd rt) [hd inputs]), the out]
                    else path_resolve (cwd rt) [the out]),
                 isDirectory = True, isSingleFile = False \<rparr>
       \<and> (normalized_absolute (cwd rt) \<longrightarrow>
            (\<forall>wd. path_resolve (cwd rt) [path_dirname (path_resolve (cwd rt) [hd inputs]), the out]
                  = path_resolve wd [path_dirname (path_resolve (cwd rt) [hd inputs]), the out]))"
proof (intro conjI impI allI)
  from assms(2) obtain input0 rest where "inputs = input0 # rest"
    by (cases inputs) auto
  with assms(1) show "resolveOutputPath rt fs inputs out =
           Inr \<lparr> outputBase =
                   (if startsWith (the out) ''./'' \<or> startsWith (the out) ''../''
                    then path_resolve (cwd rt)
                           [path_dirname (path_resolve (cwd rt) [hd inputs]), the out]
                    else path_resolve (cwd rt) [the out]),
                 isDirectory = True, isSingleFile = False \<rparr>"
    by (simp add: resolveOutputPath_def Let_def)
next
  fix wd
  assume "normalized_absolute (cwd rt)"
  from path_resolve_shape [OF this, of "[hd inputs]"] obtain segs
    where segs: "list_all valid_seg segs" "path_resolve (cwd rt) [hd inputs] = render segs"
    by blast
  have "path_dirname (path_resolve (cwd rt) [hd inputs]) = render (butlast segs)"
    using segs by (simp add: path_dirname_render)
  then show "path_resolve (cwd rt) [path_dirname (path_resolve (cwd rt) [hd inputs]), the out]
           = path_resolve wd [path_dirname (path_resolve (cwd rt) [hd inputs]), the out]"
    using path_resolve_render_rel_any [OF valid_segs_butlast [OF segs(1)]] by simp
qed

lemma normalized_absolute_example: "normalized_absolute ''/w''"
  by (simp add: normalized_absolute_def path_segments_def render_def valid_seg_def)

theorem resolveOutputPath_explicit_witness:
  "truthy (Some ''./export'') \<and> [''/data/photos'', ''images''] \<noteq> []
   \<and> resolveOutputPath example_rt example_fs [''/data/photos'', ''images''] (Some ''./export'')
       = Inr \<lparr> outputBase = ''/data/export'', isDirectory = True, isSingleFile = False \<rparr>
   \<and> path_resolve (cwd example_rt) [''./export''] = ''/w/export''
   \<and> path_resolve ''/elsewhere'' [path_dirname (path_resolve (cwd example_rt) [''/data/photos'']), ''./export'']
       = ''/data/export''"
  using resolveOutputPath_explicit [of "Some ''./export''" "[''/data/photos'', ''images'']" example_rt example_fs]
  by (simp add: truthy_def startsWith_def example_rt_def normalized_absolute_example path_resolve_def normalizeString_def
      normalize_step_def path_dirname_def)

lemma valid_seg_suffixed:
  assumes "CHR ''/'' \<notin> set a" and "CHR ''/'' \<notin> set b"
  shows "valid_seg (a @ ''-imgwork'' @ b)"
proof -
  have "length (a @ ''-imgwork'' @ b) \<ge> 8" by simp
  then have "a @ ''-imgwork'' @ b \<noteq> []" "a @ ''-imgwork'' @ b \<noteq> ''.''" "a @ ''-imgwork'' @ b \<noteq> ''..''"
    by (auto simp del: append.simps dest!: arg_cong [where f = length])
  with assms show ?thesis
    unfolding valid_seg_def by simp
qed

lemma render_suffixed:
  assumes "list_all valid_seg segs"
  shows "\<exists>segs'. list_all valid_seg segs' \<and> render segs @ ''-imgwork'' = render segs'
           \<and> butlast segs' = butlast segs
           \<and> last_component (render segs') = last_component (render segs) @ ''-imgwork''"
proof (cases segs rule: rev_cases)
  case Nil
  have v: "valid_seg ''-imgwork''" by (simp add: valid_seg_def)
  have "render [] @ ''-imgwork'' = render [''-imgwork'']" by (simp add: render_def)
  moreover have "last_component (render ([] @ [''-imgwork''])) = ''-imgwork''"
    using v by (intro last_component_render_snoc) simp_all
  ultimately show ?thesis
    using Nil v by (intro exI [of _ "[''-imgwork'']"]) (simp add: last_component_root)
next
  case (snoc ss n)
  with assms have ss: "list_all valid_seg ss" and n: "valid_seg n" by simp_all
  have v: "valid_seg (n @ ''-imgwork'')"
    using valid_seg_suffixed [of n "[]"] n by (simp add: valid_seg_def)
  have "render (ss @ [n]) @ ''-imgwork'' = render (ss @ [n @ ''-imgwork''])"
    using ss by (simp add: render_snoc)
  then show ?thesis
    using snoc ss n v
    by (intro exI [of _ "ss @ [n @ ''-imgwork'']"]) (simp add: last_component_render_snoc)
qed

lemma set_last_component: "set (last_component p) \<subseteq> set p - {CHR ''/''}"
proof -
  have "set (takeWhile (\<lambda>c. c \<noteq> CHR ''/'') xs) \<subseteq> set xs - {CHR ''/''}" for xs
    by (induction xs) auto
  from this [of "dropWhile (\<lambda>c. c = CHR ''/'') (rev p)"]
    set_dropWhileD [of _ "\<lambda>c. c = CHR ''/''" "rev p"]
  show ?thesis by (auto simp: last_component_def)
qed

lemma slash_notin_last_component: "CHR ''/'' \<notin> set (last_component p)"
  using set_last_component [of p] by auto

lemma slash_notin_extname: "CHR ''/'' \<notin> set (path_extname p)"
proof (cases "path_extname p = []")
  case True
  then show ?thesis by simp
next
  case False
  from extname_decompose [OF refl False] obtain stem
    where "last_component p = stem @ path_extname p" by blast
  with slash_notin_last_component [of p] show ?thesis
    by (metis Un_iff set_append)
qed

lemma path_basename_extname_stem:
  "path_basename p (path_extname p) @ path_extname p = last_component p"
proof (cases "last_component p = []")
  case True
  then have e: "path_extname p = []" by (simp add: path_extname_def)
  then show ?thesis using True by (simp add: path_basename_plain)
next
  case False
  then show ?thesis by (rule path_basename_extname [OF refl])
qed

lemma slash_notin_basename_extname: "CHR ''/'' \<notin> set (path_basename p (path_extname p))"
  using slash_notin_last_component [of p] path_basename_extname_stem [of p]
  by (metis Un_iff set_append)

lemma single_file_target:
  assumes "list_all valid_seg segs"
  defines "F \<equiv> render segs"
  defines "name \<equiv> path_basename F (path_extname F) @ ''-imgwork'' @ path_extname F"
  shows "path_dirname (path_join [path_dirname F, name]) = path_dirname F"
    and "path_basename (path_join [path_dirname F, name]) [] = name"
proof -
  have v: "valid_seg name"
    unfolding name_def
    by (rule valid_seg_suffixed [OF slash_notin_basename_extname slash_notin_extname])
  have b: "list_all valid_seg (butlast segs)"
    using assms(1) by (rule valid_segs_butlast)
  have d: "path_dirname F = render (butlast segs)"
    unfolding F_def using assms(1) by (rule path_dirname_render)
  have j: "path_join [render (butlast segs), name] = render (butlast segs @ [name])"
    by (rule path_join_render_name [OF b v])
  show "path_dirname (path_join [path_dirname F, name]) = path_dirname F"
    unfolding d j by (rule path_dirname_render_snoc [OF b v])
  show "path_basename (path_join [path_dirname F, name]) [] = name"
    unfolding d j by (rule path_basename_render_snoc [OF b v])
qed

lemma multi_input_target:
  assumes "normalized_absolute wd"
  shows "path_resolve wd [wd, ''imgwork-output''] = path_join [wd, ''imgwork-output'']"
    and "path_dirname (path_join [wd, ''imgwork-output'']) = wd"
proof -
  from assms obtain c where c: "list_all valid_seg c" "wd = render c"
    by (rule normalized_absoluteE)
  have v: "valid_seg ''imgwork-output''" by (simp add: valid_seg_def)
  have j: "path_join [wd, ''imgwork-output''] = render (c @ [''imgwork-output''])"
    unfolding c(2) by (rule path_join_render_name [OF c(1) v])
  have "path_resolve wd [render c, ''imgwork-output'']
        = CHR ''/'' # join_slash (foldl (normalize_step False) c (split_slash ''imgwork-output''))"
    using path_resolve_render_rel [OF c(1), of wd "''imgwork-output''"] by simp
  also have "\<dots> = render (c @ [''imgwork-output''])"
    using v by (simp add: normalize_step_valid render_def)
  finally show "path_resolve wd [wd, ''imgwork-output''] = path_join [wd, ''imgwork-output'']"
    using j c(2) by simp
  show "path_dirname (path_join [wd, ''imgwork-output'']) = wd"
    unfolding j using c path_dirname_render_snoc [OF c(1) v] by simp
qed


text \<open>
  Claim C6. With no explicit output target (and an absolute normalized working directory):
  for a single input that is a directory \<open>D\<close>, \<open>resolveOutputPath\<close> returns a directory
  tree rooted at the resolved \<open>D\<close> with \<open>-imgwork\<close> appended to its name, in the same parent
  directory; for a single input \<open>F\<close> that is not a directory, with base name \<open>B\<close> and
  extension \<open>.ext\<close>, it returns a single file named \<open>B-imgwork.ext\<close> in the parent directory
  of \<open>F\<close>; for more than one input it returns a directory tree rooted at \<open>imgwork-output\<close>
  in the working directory.
\<close>

theorem resolveOutputPath_default:
  assumes "\<not> truthy out" and "normalized_absolute (cwd rt)"
  shows "(\<forall>d. inputs = [d] \<and> stat_isDirectory (stat fs (path_resolve (cwd rt) [d])) \<longrightarrow>
            (\<exists>base. resolveOutputPath rt fs inputs out
                       = Inr \<lparr> outputBase = base, isDirectory = True, isSingleFile = False \<rparr>
                  \<and> base = path_resolve (cwd rt) [d] @ ''-imgwork''
                  \<and> path_dirname base = path_dirname (path_resolve (cwd rt) [d])
                  \<and> path_basename base []
                      = path_basename (path_resolve (cwd rt) [d]) [] @ ''-imgwork''))
       \<and> (\<forall>f. inputs = [f] \<and> \<not> stat_isDirectory (stat fs (path_resolve (cwd rt) [f])) \<longrightarrow>
            (\<exists>base. resolveOutputPath rt fs inputs out
                       = Inr \<lparr> outputBase = base, isDirectory = False, isSingleFile = True \<rparr>
                  \<and> path_dirname base = path_dirname (path_resolve (cwd rt) [f])
                  \<and> path_basename base []
                      = path_basename (path_resolve (cwd rt) [f])
                          (path_extname (path_resolve (cwd rt) [f]))
                        @ ''-imgwork'' @ path_extname (path_resolve (cwd rt) [f])))
       \<and> (1 < length inputs \<longrightarrow>
            resolveOutputPath rt fs inputs out
              = Inr \<lparr> outputBase = path_join [cwd rt, ''imgwork-output''],
                      isDirectory = True, isSingleFile = False \<rparr>
            \<and> path_dirname (path_join [cwd rt, ''imgwork-output'']) = cwd rt)"
proof (intro conjI allI impI)
  fix d
  assume a: "inputs = [d] \<and> stat_isDirectory (stat fs (path_resolve (cwd rt) [d]))"
  from path_resolve_shape [OF assms(2), of "[d]"] obtain segs
    where segs: "list_all valid_seg segs" "path_resolve (cwd rt) [d] = render segs" by blast
  from render_suffixed [OF segs(1)] obtain segs'
    where s': "list_all valid_seg segs'" "render segs @ ''-imgwork'' = render segs'"
      "butlast segs' = butlast segs"
      "last_component (render segs') = last_component (render segs) @ ''-imgwork''"
    by blast
  have r: "resolveOutputPath rt fs inputs out
           = Inr \<lparr> outputBase = path_resolve (cwd rt) [d] @ ''-imgwork'',
                   isDirectory = True, isSingleFile = False \<rparr>"
    using a assms(1) by (simp add: resolveOutputPath_def Let_def)
  have dn: "path_dirname (path_resolve (cwd rt) [d] @ ''-imgwork'')
            = path_dirname (path_resolve (cwd rt) [d])"
    unfolding segs(2) s'(2) using s'(3) segs(1) s'(1) by (simp add: path_dirname_render)
  have bn: "path_basename (path_resolve (cwd rt) [d] @ ''-imgwork'') []
            = path_basename (path_resolve (cwd rt) [d]) [] @ ''-imgwork''"
    unfolding segs(2) s'(2) using s'(4) by (simp add: path_basename_plain)
  show "\<exists>base. resolveOutputPath rt fs inputs out
                 = Inr \<lparr> outputBase = base, isDirectory = True, isSingleFile = False \<rparr>
            \<and> base = path_resolve (cwd rt) [d] @ ''-imgwork''
            \<and> path_dirname base = path_dirname (path_resolve (cwd rt) [d])
            \<and> path_basename base [] = path_basename (path_resolve (cwd rt) [d]) [] @ ''-imgwork''"
    using r dn bn by blast
next
  fix f
  assume a: "inputs = [f] \<and> \<not> stat_isDirectory (stat fs (path_resolve (cwd rt) [f]))"
  let ?F = "path_resolve (cwd rt) [f]"
  let ?name = "path_basename ?F (path_extname ?F) @ ''-imgwork'' @ path_extname ?F"
  from path_resolve_shape [OF assms(2), of "[f]"] obtain segs
    where segs: "list_all valid_seg segs" "?F = render segs" by blast
  have r: "resolveOutputPath rt fs inputs out
           = Inr \<lparr> outputBase = path_join [path_dirname ?F, ?name],
                   isDirectory = False, isSingleFile = True \<rparr>"
    using a assms(1) by (simp add: resolveOutputPath_def Let_def)
  note t = single_file_target [OF segs(1), folded segs(2)]
  show "\<exists>base. resolveOutputPath rt fs inputs out
                 = Inr \<lparr> outputBase = base, isDirectory = False, isSingleFile = True \<rparr>
            \<and> path_dirname base = path_dirname ?F
            \<and> path_basename base [] = ?name"
    using r t by blast
next
  assume "1 < length inputs"
  then show "resolveOutputPath rt fs inputs out
              = Inr \<lparr> outputBase = path_join [cwd rt, ''imgwork-output''],
                      isDirectory = True, isSingleFile = False \<rparr>"
    using assms(1) multi_input_target(1) [OF assms(2)] by (simp add: resolveOutputPath_def)
next
  show "path_dirname (path_join [cwd rt, ''imgwork-output'']) = cwd rt"
    by (rule multi_input_target(2) [OF assms(2)])
qed


lemmas path_eval =
  path_resolve_def normalizeString_def normalize_step_def path_normalize_def path_join_def
  path_dirname_def path_extname_def path_basename_def last_component_def ends_with_def
  path_segments_def path_relative_def startsWith_def

lemmas fs_eval =
  stat_def existsSync_def stat_isDirectory_def stat_isFile_def example_fs_def

lemma example_rt_simps [simp]:
  "cwd example_rt = ''/w''"
  "regexp_replace example_rt = example_regexp_replace"
  "sharp_metadata example_rt fs p =
     (if stat fs p = Some File then Inr (400, 300) else Inl (SharpError ''Input file is missing''))"
  "sharp_toFile example_rt fs i ops out =
     (if stat fs i \<noteq> Some File then (Inl (SharpError ''Input file is missing''), fs)
      else (case write_file fs (path_segments out) of
              Inl e \<Rightarrow> (Inl e, fs)
            | Inr fs' \<Rightarrow> (Inr (), fs')))"
  "floor_scaled example_rt c a b = (c * a) div b"
  by (simp_all add: example_rt_def)

theorem resolveOutputPath_default_witness:
  "\<not> truthy None \<and> normalized_absolute (cwd example_rt)
   \<and> stat_isDirectory (stat example_fs (path_resolve (cwd example_rt) [''images/'']))
   \<and> resolveOutputPath example_rt example_fs [''images/''] None
       = Inr \<lparr> outputBase = ''/w/images-imgwork'', isDirectory = True, isSingleFile = False \<rparr>
   \<and> path_dirname ''/w/images-imgwork'' = ''/w''
   \<and> \<not> stat_isDirectory (stat example_fs (path_resolve (cwd example_rt) [''photo.jpg'']))
   \<and> resolveOutputPath example_rt example_fs [''photo.jpg''] None
       = Inr \<lparr> outputBase = ''/w/photo-imgwork.jpg'', isDirectory = False, isSingleFile = True \<rparr>
   \<and> 1 < length [''photo.jpg'', ''images'']
   \<and> resolveOutputPath example_rt example_fs [''photo.jpg'', ''images''] None
       = Inr \<lparr> outputBase = ''/w/imgwork-output'', isDirectory = True, isSingleFile = False \<rparr>"
  using resolveOutputPath_default [of None example_rt "[''images/'']" example_fs]
    resolveOutputPath_default [of None example_rt "[''photo.jpg'']" example_fs]
    resolveOutputPath_default [of None example_rt "[''photo.jpg'', ''images'']" example_fs]
  by (simp add: resolveOutputPath_def truthy_def normalized_absolute_example path_eval fs_eval)

subsection \<open>The output path of a file\<close>

lemma getOutputFilePath_baseDir_owner:
  "getOutputFilePath_baseDir rt fs file inputs =
     map_option
       (\<lambda>input. if stat_isDirectory (stat fs (path_resolve (cwd rt) [input]))
                then path_resolve (cwd rt) [input]
                else path_dirname (path_resolve (cwd rt) [input]))
       (owning_input rt file inputs)"
  by (induction inputs) (simp_all add: owning_input_def Let_def)

lemma getOutputFilePath_base:
  "(if \<not> truthy (getOutputFilePath_baseDir rt fs file inputs) then path_dirname file
    else the (getOutputFilePath_baseDir rt fs file inputs))
   = relativization_base rt fs file inputs"
  by (cases "owning_input rt file inputs")
    (simp_all add: getOutputFilePath_baseDir_owner relativization_base_def truthy_def)

lemma getOutputFilePath_tree:
  assumes "\<not> isSingleFile info"
  shows "getOutputFilePath rt fs file inputs info newExtension =
           Inr (path_join
                  [path_join [outputBase info,
                              path_relative (cwd rt) (relativization_base rt fs file inputs)
                                (path_dirname file)],
                   path_basename file (path_extname file)
                     @ (if truthy newExtension then the newExtension else path_extname file)])"
  using assms by (simp add: getOutputFilePath_def Let_def getOutputFilePath_base)

lemma stem_of_component:
  assumes "valid_seg n" and "last_component p = n"
  shows "path_basename p (path_extname p) = path_basename n (path_extname n)"
proof -
  have e: "path_extname p = path_extname n"
    using assms by (intro path_extname_last_component) (simp add: last_component_valid)
  have "path_basename p (path_extname p) @ path_extname p = n"
    using path_basename_extname_stem [of p] assms(2) by simp
  moreover have "path_basename n (path_extname n) @ path_extname n = n"
    using path_basename_extname_stem [of n] assms(1) by (simp add: last_component_valid)
  ultimately show ?thesis using e by (metis append_same_eq)
qed

text \<open>An input directory at the head of the list owns every file under it.\<close>

lemma owning_input_first:
  assumes "list_all valid_seg root" and "path_resolve (cwd rt) [r] = render root"
  shows "owning_input rt (render (root @ rel)) (r # rest) = Some r"
  using assms startsWith_render [OF assms(1), of rel] by (simp add: owning_input_def)

lemma mirrored_path:
  assumes root: "list_all valid_seg root" and ds: "list_all valid_seg ds"
    and out: "list_all valid_seg out" and name: "valid_seg name"
    and own: "owning_input rt (render (root @ ds @ [name])) inputs = Some r"
    and r: "path_resolve (cwd rt) [r] = render root"
    and dir: "stat_isDirectory (stat fs (render root))"
    and info: "\<not> isSingleFile info" "outputBase info = render out"
    and ext: "valid_seg (path_basename name (path_extname name)
                @ (if truthy newExtension then the newExtension else path_extname name))"
  shows "getOutputFilePath rt fs (render (root @ ds @ [name])) inputs info newExtension =
           Inr (render (out @ ds @ [path_basename name (path_extname name)
                  @ (if truthy newExtension then the newExtension else path_extname name)]))"
proof -
  let ?file = "render (root @ ds @ [name])"
  have rd: "list_all valid_seg (root @ ds)" using root ds by simp
  have od: "list_all valid_seg (out @ ds)" using out ds by simp
  have lc: "last_component ?file = name"
    using last_component_render_snoc [OF rd name] by simp
  have dn: "path_dirname ?file = render (root @ ds)"
    using path_dirname_render_snoc [OF rd name] by simp
  have base: "relativization_base rt fs ?file inputs = render root"
    using own r dir by (simp add: relativization_base_def)
  have rel: "path_relative (cwd rt) (render root) (render (root @ ds)) = join_slash ds"
    by (rule path_relative_render [OF root ds])
  have j1: "path_join [render out, join_slash ds] = render (out @ ds)"
    by (rule path_join_render [OF out ds])
  have stem: "path_basename ?file (path_extname ?file) = path_basename name (path_extname name)"
    by (rule stem_of_component [OF name lc])
  have en: "path_extname ?file = path_extname name"
    using lc name by (intro path_extname_last_component) (simp add: last_component_valid)
  have j2: "path_join [render (out @ ds), path_basename name (path_extname name)
                  @ (if truthy newExtension then the newExtension else path_extname name)]
            = render ((out @ ds) @ [path_basename name (path_extname name)
                  @ (if truthy newExtension then the newExtension else path_extname name)])"
    by (rule path_join_render_name [OF od ext])
  have stem': "path_basename ?file (path_extname name) = path_basename name (path_extname name)"
    using stem en by simp
  show ?thesis
    unfolding getOutputFilePath_tree [OF info(1)] base dn rel info(2) j1 en stem' j2 by simp
qed

lemma stem_ext_name:
  "valid_seg name \<Longrightarrow> path_basename name (path_extname name) @ path_extname name = name"
  using path_basename_extname_stem [of name] by (simp add: last_component_valid)

text \<open>
  Claim C5. For a directory-tree target, \<open>getOutputFilePath\<close> takes as owner the first
  input whose resolved path is a prefix of the file's path; the base is that path if it is
  a directory, its parent directory if not, and the file's own parent directory when no
  input owns the file. It returns the target root, joined with the file's directory
  relative to the base, joined with the file's base name and the new extension, or the
  original one when none is given. In particular a file at \<open>root/ds/name\<close> whose owner,
  wherever it stands in the list of inputs, is the input directory \<open>root\<close> maps to
  \<open>out/ds/name\<close>, with the extension replaced when a new one is given.
\<close>

theorem getOutputFilePath_directory_tree:
  assumes "\<not> isSingleFile info"
  shows "getOutputFilePath rt fs file inputs info newExtension =
           Inr (path_join
                  [path_join [outputBase info,
                              path_relative (cwd rt) (relativization_base rt fs file inputs)
                                (path_dirname file)],
                   path_basename file (path_extname file)
                     @ (if truthy newExtension then the newExtension else path_extname file)])
       \<and> (\<forall>root ds name out r.
            list_all valid_seg root \<and> list_all valid_seg ds \<and> list_all valid_seg out
            \<and> valid_seg name
            \<and> file = render (root @ ds @ [name])
            \<and> owning_input rt file inputs = Some r
            \<and> path_resolve (cwd rt) [r] = render root
            \<and> stat_isDirectory (stat fs (render root))
            \<and> outputBase info = render out \<longrightarrow>
              (\<not> truthy newExtension \<longrightarrow>
                 getOutputFilePath rt fs file inputs info newExtension
                   = Inr (render (out @ ds @ [name])))
            \<and> (truthy newExtension
                 \<and> valid_seg (path_basename name (path_extname name) @ the newExtension) \<longrightarrow>
                 getOutputFilePath rt fs file inputs info newExtension
                   = Inr (render (out @ ds
                           @ [path_basename name (path_extname name) @ the newExtension]))))
       \<and> (\<forall>root rel r rest.
            list_all valid_seg root \<and> inputs = r # rest
            \<and> path_resolve (cwd rt) [r] = render root \<and> file = render (root @ rel) \<longrightarrow>
              owning_input rt file inputs = Some r)"
proof (intro conjI allI impI)
  show "getOutputFilePath rt fs file inputs info newExtension =
           Inr (path_join
                  [path_join [outputBase info,
                              path_relative (cwd rt) (relativization_base rt fs file inputs)
                                (path_dirname file)],
                   path_basename file (path_extname file)
                     @ (if truthy newExtension then the newExtension else path_extname file)])"
    by (rule getOutputFilePath_tree [OF assms])
next
  fix root ds name out r
  assume a: "list_all valid_seg root \<and> list_all valid_seg ds \<and> list_all valid_seg out
            \<and> valid_seg name
            \<and> file = render (root @ ds @ [name])
            \<and> owning_input rt file inputs = Some r
            \<and> path_resolve (cwd rt) [r] = render root
            \<and> stat_isDirectory (stat fs (render root))
            \<and> outputBase info = render out"
    and n: "\<not> truthy newExtension"
  then have v: "valid_seg (path_basename name (path_extname name)
                @ (if truthy newExtension then the newExtension else path_extname name))"
    by (simp add: stem_ext_name)
  from a have f: "file = render (root @ ds @ [name])"
    and own: "owning_input rt (render (root @ ds @ [name])) inputs = Some r"
    by auto
  from a have "getOutputFilePath rt fs (render (root @ ds @ [name])) inputs info newExtension
      = Inr (render (out @ ds @ [path_basename name (path_extname name)
                  @ (if truthy newExtension then the newExtension else path_extname name)]))"
    by (intro mirrored_path [OF _ _ _ _ own _ _ assms _ v]) simp_all
  with a n f
  show "getOutputFilePath rt fs file inputs info newExtension = Inr (render (out @ ds @ [name]))"
    by (simp add: stem_ext_name)
next
  fix root ds name out r
  assume a: "list_all valid_seg root \<and> list_all valid_seg ds \<and> list_all valid_seg out
            \<and> valid_seg name
            \<and> file = render (root @ ds @ [name])
            \<and> owning_input rt file inputs = Some r
            \<and> path_resolve (cwd rt) [r] = render root
            \<and> stat_isDirectory (stat fs (render root))
            \<and> outputBase info = render out"
    and n: "truthy newExtension
            \<and> valid_seg (path_basename name (path_extname name) @ the newExtension)"
  then have v: "valid_seg (path_basename name (path_extname name)
                @ (if truthy newExtension then the newExtension else path_extname name))"
    by simp
  from a have f: "file = render (root @ ds @ [name])"
    and own: "owning_input rt (render (root @ ds @ [name])) inputs = Some r"
    by auto
  from a have "getOutputFilePath rt fs (render (root @ ds @ [name])) inputs info newExtension
      = Inr (render (out @ ds @ [path_basename name (path_extname name)
                  @ (if truthy newExtension then the newExtension else path_extname name)]))"
    by (intro mirrored_path [OF _ _ _ _ own _ _ assms _ v]) simp_all
  with n f
  show "getOutputFilePath rt fs file inputs info newExtension
          = Inr (render (out @ ds @ [path_basename name (path_extname name) @ the newExtension]))"
    by simp
next
  fix root rel r rest
  assume "list_all valid_seg root \<and> inputs = r # rest
            \<and> path_resolve (cwd rt) [r] = render root \<and> file = render (root @ rel)"
  then show "owning_input rt file inputs = Some r"
    using owning_input_first [of root rt r rel rest] by simp
qed

text \<open>
  Two runs: the file \<open>/root/a/b/c.jpg\<close> under the only input \<open>/root\<close>, and the file
  \<open>/w/images/sub/b.png\<close> in a run over \<open>photo.jpg\<close> and \<open>images\<close>, owned by the second
  input.
\<close>

theorem getOutputFilePath_directory_tree_witness:
  "\<not> isSingleFile \<lparr> outputBase = ''/OUT'', isDirectory = True, isSingleFile = False \<rparr>
   \<and> owning_input example_rt ''/root/a/b/c.jpg'' [''/root''] = Some ''/root''
   \<and> path_resolve (cwd example_rt) [''/root''] = ''/root''
   \<and> stat_isDirectory (stat example_tree ''/root'')
   \<and> getOutputFilePath example_rt example_tree ''/root/a/b/c.jpg'' [''/root'']
         \<lparr> outputBase = ''/OUT'', isDirectory = True, isSingleFile = False \<rparr> None
       = Inr ''/OUT/a/b/c.jpg''
   \<and> getOutputFilePath example_rt example_tree ''/root/a/b/c.jpg'' [''/root'']
         \<lparr> outputBase = ''/OUT'', isDirectory = True, isSingleFile = False \<rparr> (Some ''.webp'')
       = Inr ''/OUT/a/b/c.webp''
   \<and> owning_input example_rt ''/w/images/sub/b.png'' [''photo.jpg'', ''images''] = Some ''images''
   \<and> path_resolve (cwd example_rt) [''images''] = ''/w/images''
   \<and> stat_isDirectory (stat example_fs ''/w/images'')
   \<and> getOutputFilePath example_rt example_fs ''/w/images/sub/b.png'' [''photo.jpg'', ''images'']
         \<lparr> outputBase = ''/OUT'', isDirectory = True, isSingleFile = False \<rparr> None
       = Inr ''/OUT/sub/b.png''"
proof -
  let ?info = "\<lparr> outputBase = ''/OUT'', isDirectory = True, isSingleFile = False \<rparr>"
  have tree: "\<not> isSingleFile ?info" by simp
  have head: "list_all valid_seg [''root''] \<and> [''/root''] = ''/root'' # []
      \<and> path_resolve (cwd example_rt) [''/root''] = render [''root'']
      \<and> ''/root/a/b/c.jpg'' = render ([''root''] @ [''a'', ''b'', ''c.jpg''])"
    by code_simp
  note own = getOutputFilePath_directory_tree [OF tree, of example_rt example_tree
      "''/root/a/b/c.jpg''" "[''/root'']", THEN conjunct2, THEN conjunct2, rule_format, OF head]
  have pre: "list_all valid_seg [''root''] \<and> list_all valid_seg [''a'', ''b'']
      \<and> list_all valid_seg [''OUT''] \<and> valid_seg ''c.jpg''
      \<and> ''/root/a/b/c.jpg'' = render ([''root''] @ [''a'', ''b''] @ [''c.jpg''])
      \<and> owning_input example_rt ''/root/a/b/c.jpg'' [''/root''] = Some ''/root''
      \<and> path_resolve (cwd example_rt) [''/root''] = render [''root'']
      \<and> stat_isDirectory (stat example_tree (render [''root'']))
      \<and> outputBase ?info = render [''OUT'']"
    using own by code_simp
  have same: "\<not> truthy None" by code_simp
  have new: "truthy (Some ''.webp'')
      \<and> valid_seg (path_basename ''c.jpg'' (path_extname ''c.jpg'') @ the (Some ''.webp''))"
    by code_simp
  have r1: "render ([''OUT''] @ [''a'', ''b''] @ [''c.jpg'']) = ''/OUT/a/b/c.jpg''"
    and r2: "render ([''OUT''] @ [''a'', ''b'']
               @ [path_basename ''c.jpg'' (path_extname ''c.jpg'') @ the (Some ''.webp'')])
             = ''/OUT/a/b/c.webp''"
    by code_simp+
  note mapped = getOutputFilePath_directory_tree [OF tree, of example_rt example_tree
      "''/root/a/b/c.jpg''" "[''/root'']", THEN conjunct2, THEN conjunct1, rule_format, OF pre]
  have m1: "getOutputFilePath example_rt example_tree ''/root/a/b/c.jpg'' [''/root''] ?info None
        = Inr ''/OUT/a/b/c.jpg''"
    using mapped [of None, THEN conjunct1, rule_format, OF same] by (simp only: r1)
  have m2: "getOutputFilePath example_rt example_tree ''/root/a/b/c.jpg'' [''/root''] ?info
          (Some ''.webp'')
        = Inr ''/OUT/a/b/c.webp''"
    using mapped [of "Some ''.webp''", THEN conjunct2, rule_format, OF new] by (simp only: r2)
  have h: "path_resolve (cwd example_rt) [''/root''] = ''/root''"
    "stat_isDirectory (stat example_tree ''/root'')"
    by code_simp+
  have pre2: "list_all valid_seg [''w'', ''images''] \<and> list_all valid_seg [''sub'']
      \<and> list_all valid_seg [''OUT''] \<and> valid_seg ''b.png''
      \<and> ''/w/images/sub/b.png'' = render ([''w'', ''images''] @ [''sub''] @ [''b.png''])
      \<and> owning_input example_rt ''/w/images/sub/b.png'' [''photo.jpg'', ''images'']
          = Some ''images''
      \<and> path_resolve (cwd example_rt) [''images''] = render [''w'', ''images'']
      \<and> stat_isDirectory (stat example_fs (render [''w'', ''images'']))
      \<and> outputBase ?info = render [''OUT'']"
    by code_simp
  have r4: "render ([''OUT''] @ [''sub''] @ [''b.png'']) = ''/OUT/sub/b.png''"
    by code_simp
  note second = getOutputFilePath_directory_tree [OF tree, of example_rt example_fs
      "''/w/images/sub/b.png''" "[''photo.jpg'', ''images'']" None,
      THEN conjunct2, THEN conjunct1, rule_format, OF pre2, THEN conjunct1, rule_format, OF same]
  have m3: "getOutputFilePath example_rt example_fs ''/w/images/sub/b.png''
          [''photo.jpg'', ''images''] ?info None
        = Inr ''/OUT/sub/b.png''"
    using second by (simp only: r4)
  have h2: "owning_input example_rt ''/w/images/sub/b.png'' [''photo.jpg'', ''images'']
          = Some ''images''"
    "path_resolve (cwd example_rt) [''images''] = ''/w/images''"
    "stat_isDirectory (stat example_fs ''/w/images'')"
    by code_simp+
  have h0: "owning_input example_rt ''/root/a/b/c.jpg'' [''/root''] = Some ''/root''"
    by (rule own)
  show ?thesis
    using tree h0 h m1 m2 h2 m3 by blast
qed


subsection \<open>Ownership is decided on strings\<close>

text \<open>
  Claim C10. The owner test of \<open>getOutputFilePath\<close> compares strings, not path components.
  With the input directory \<open>/p/photos\<close> and the file \<open>/p/photos2/x.jpg\<close>, the directory
  does not contain the file, yet its path is a prefix of the file's path: it is taken as
  owner, the file's directory relative to it is \<open>../photos2\<close>, and the output path leaves
  the output root. The same happens in a run over the inputs \<open>/p/photos\<close> and
  \<open>/p/photos2\<close>, where the file is discovered under the second input.
\<close>

theorem getOutputFilePath_string_prefix_owner:
  "startsWith ''/p/photos2/x.jpg'' (path_resolve (cwd example_rt) [''/p/photos''])
   \<and> \<not> path_contains ''/p/photos'' ''/p/photos2/x.jpg''
   \<and> owning_input example_rt ''/p/photos2/x.jpg'' [''/p/photos''] = Some ''/p/photos''
   \<and> stat_isDirectory (stat example_fs ''/p/photos'')
   \<and> getOutputFilePath_baseDir example_rt example_fs ''/p/photos2/x.jpg'' [''/p/photos'']
       = Some ''/p/photos''
   \<and> path_relative (cwd example_rt) ''/p/photos'' (path_dirname ''/p/photos2/x.jpg'')
       = ''../photos2''
   \<and> getOutputFilePath example_rt example_fs ''/p/photos2/x.jpg'' [''/p/photos'']
         \<lparr> outputBase = ''/out'', isDirectory = True, isSingleFile = False \<rparr> None
       = Inr ''/photos2/x.jpg''
   \<and> fst (findImages example_rt example_fs [''/p/photos'', ''/p/photos2''])
       = [''/p/photos/y.jpg'', ''/p/photos2/x.jpg'']
   \<and> resolveOutputPath example_rt example_fs [''/p/photos'', ''/p/photos2''] None
       = Inr \<lparr> outputBase = ''/w/imgwork-output'', isDirectory = True, isSingleFile = False \<rparr>
   \<and> getOutputFilePath example_rt example_fs ''/p/photos2/x.jpg'' [''/p/photos'', ''/p/photos2'']
         \<lparr> outputBase = ''/w/imgwork-output'', isDirectory = True, isSingleFile = False \<rparr> None
       = Inr ''/w/photos2/x.jpg''"
  by code_simp

subsection \<open>Discovery\<close>

lemma isImageFile_render:
  assumes "list_all valid_seg segs" and "valid_seg name"
  shows "isImageFile (render (segs @ [name])) = isImageFile name"
  using path_extname_render_snoc [OF assms] by (simp add: isImageFile_def)

lemma findImages_tree:
  "list_all valid_seg segs \<Longrightarrow> wf_node n \<Longrightarrow>
     fst (findImagesInDirectory rt (render segs) n) = map (\<lambda>q. render (segs @ q)) (image_paths n)"
  "list_all valid_seg segs \<Longrightarrow> wf_entries entries \<Longrightarrow>
     fst (findImagesInEntries rt (render segs) entries)
       = map (\<lambda>q. render (segs @ q)) (image_paths_entries entries)"
proof (induction n and entries arbitrary: segs and segs rule: image_paths_image_paths_entries.induct)
  case (6 name child rest)
  from "6.prems" have name: "valid_seg name" and child: "wf_node child" and rest: "wf_entries rest"
    by simp_all
  have sn: "list_all valid_seg (segs @ [name])" using "6.prems"(1) name by simp
  have full: "path_join [render segs, name] = render (segs @ [name])"
    by (rule path_join_render_name [OF "6.prems"(1) name])
  have rs: "path_resolve (cwd rt) [render (segs @ [name])] = render (segs @ [name])"
    by (rule path_resolve_render [OF sn])
  have img: "isImageFile (render (segs @ [name])) = isImageFile name"
    by (rule isImageFile_render [OF "6.prems"(1) name])
  have tail: "fst (findImagesInEntries rt (render segs) rest)
              = map (\<lambda>q. render (segs @ q)) (image_paths_entries rest)"
    by (rule "6.IH"(2) [OF "6.prems"(1) rest])
  show ?case
  proof (cases "isDirectory_node child")
    case True
    from "6.IH"(1) [OF True sn child]
    have "fst (findImagesInDirectory rt (render (segs @ [name])) child)
          = map (\<lambda>q. render (segs @ name # q)) (image_paths child)"
      by simp
    with True tail full show ?thesis
      by (simp add: Let_def split_beta comp_def)
  next
    case False
    with tail full rs img show ?thesis
      by (simp add: Let_def split_beta)
  qed
qed simp_all

lemma image_paths_names:
  "wf_node n \<Longrightarrow> q \<in> set (image_paths n)
     \<Longrightarrow> q \<noteq> [] \<and> list_all valid_seg q \<and> isImageFile (last q)"
  "wf_entries entries \<Longrightarrow> q \<in> set (image_paths_entries entries)
     \<Longrightarrow> q \<noteq> [] \<and> list_all valid_seg q \<and> isImageFile (last q)"
proof (induction n and entries arbitrary: q and q rule: image_paths_image_paths_entries.induct)
  case (6 name child rest)
  then show ?case
    by (auto split: if_splits)
qed simp_all

lemma isImageFile_image_path:
  assumes "list_all valid_seg segs" and "wf_node n" and "q \<in> set (image_paths n)"
  shows "isImageFile (render (segs @ q))"
proof -
  from image_paths_names(1) [OF assms(2,3)]
  have q: "q \<noteq> []" "list_all valid_seg q" "isImageFile (last q)" by simp_all
  then obtain q' name where split: "q = q' @ [name]"
    by (cases q rule: rev_cases) auto
  with q assms(1) have "list_all valid_seg (segs @ q')" "valid_seg name" "isImageFile name"
    by simp_all
  from isImageFile_render [OF this(1,2)] this(3) split show ?thesis by simp
qed

lemma wf_entries_map_of:
  "wf_entries entries \<Longrightarrow> map_of entries s = Some child \<Longrightarrow> wf_node child"
  by (induction entries) (auto split: if_splits)

lemma wf_lookup: "wf_node fs \<Longrightarrow> lookup fs segs = Some n \<Longrightarrow> wf_node n"
proof (induction fs segs rule: lookup.induct)
  case (2 entries s ss)
  then show ?case
    by (auto split: option.splits dest: wf_entries_map_of)
qed simp_all

lemma findImages_one:
  assumes "normalized_absolute (cwd rt)" and "wf_node fs"
  shows "fst (findImages rt fs (p # rest)) = discovered rt fs p @ fst (findImages rt fs rest)"
proof -
  let ?abs = "path_resolve (cwd rt) [p]"
  from path_resolve_shape [OF assms(1), of "[p]"] obtain segs
    where segs: "list_all valid_seg segs" "?abs = render segs" by blast
  have ps: "path_segments ?abs = segs"
    using segs by (simp add: path_segments_render)
  show ?thesis
  proof (cases "stat fs ?abs")
    case None
    then show ?thesis
      by (simp add: discovered_def existsSync_def Let_def split_beta)
  next
    case (Some n)
    then have wf: "wf_node n"
      using wf_lookup [OF assms(2), of "path_segments ?abs" n] by (simp add: stat_def)
    show ?thesis
    proof (cases "isDirectory_node n")
      case True
      with Some findImages_tree(1) [OF segs(1) wf, of rt] segs(2) ps show ?thesis
        by (simp add: discovered_def existsSync_def stat_isDirectory_def Let_def split_beta)
    next
      case False
      with Some show ?thesis
        by (simp add: discovered_def existsSync_def stat_isDirectory_def stat_isFile_def
            Let_def split_beta)
    qed
  qed
qed

lemma findImages_discovered:
  assumes "normalized_absolute (cwd rt)" and "wf_node fs"
  shows "fst (findImages rt fs paths) = concat (map (discovered rt fs) paths)"
proof (induction paths)
  case Nil
  show ?case by simp
next
  case (Cons p rest)
  with findImages_one [OF assms, of p rest] show ?case by simp
qed

lemma discovered_images:
  assumes "normalized_absolute (cwd rt)" and "wf_node fs"
  shows "list_all isImageFile (discovered rt fs p)"
proof -
  let ?abs = "path_resolve (cwd rt) [p]"
  from path_resolve_shape [OF assms(1), of "[p]"] obtain segs
    where segs: "list_all valid_seg segs" "?abs = render segs" by blast
  have ps: "path_segments ?abs = segs"
    using segs by (simp add: path_segments_render)
  show ?thesis
  proof (cases "stat fs ?abs")
    case None
    then show ?thesis by (simp add: discovered_def)
  next
    case (Some n)
    then have wf: "wf_node n"
      using wf_lookup [OF assms(2), of "path_segments ?abs" n] by (simp add: stat_def)
    show ?thesis
      using Some ps isImageFile_image_path [OF segs(1) wf]
      by (auto simp: discovered_def Let_def list_all_iff)
  qed
qed

lemma findImages_append:
  "findImages rt fs (ps @ qs)
   = (fst (findImages rt fs ps) @ fst (findImages rt fs qs),
      snd (findImages rt fs ps) @ snd (findImages rt fs qs))"
  by (induction ps) (simp_all add: Let_def split_beta)

lemma findImages_missing:
  assumes "\<not> existsSync fs (path_resolve (cwd rt) [p])"
  shows "findImages rt fs (ps @ p # qs)
         = (fst (findImages rt fs ps) @ fst (findImages rt fs qs),
            snd (findImages rt fs ps) @ PathDoesNotExist p # snd (findImages rt fs qs))"
  using assms by (simp add: findImages_append [of rt fs ps "p # qs"] Let_def split_beta)


lemma length_image_paths:
  "length (image_paths n) = count_files isImageFile n"
  "length (image_paths_entries entries) = count_files_entries isImageFile entries"
  by (induction n and entries rule: image_paths_image_paths_entries.induct) simp_all

text \<open>
  Claim C8. For every list of input paths (in a well-formed tree, under an absolute
  normalized working directory), discovery returns exactly the files whose extension,
  compared without regard to case, is one of \<open>jpg\<close>, \<open>jpeg\<close>, \<open>png\<close>, \<open>webp\<close>,
  \<open>gif\<close>, \<open>tiff\<close>, \<open>tif\<close>: what each path contributes, in order. A directory
  contributes exactly its recognized files at any depth, as many entries as it has such
  files, whatever else it holds. A path that does not exist is reported and skipped, and
  the paths after it are still discovered.
\<close>

theorem findImages_discovers_images:
  assumes "normalized_absolute (cwd rt)" and "wf_node fs"
  shows "fst (findImages rt fs paths) = concat (map (discovered rt fs) paths)
       \<and> list_all isImageFile (fst (findImages rt fs paths))
       \<and> (\<forall>segs n. list_all valid_seg segs \<and> wf_node n \<longrightarrow>
            fst (findImagesInDirectory rt (render segs) n)
              = map (\<lambda>q. render (segs @ q)) (image_paths n)
            \<and> length (fst (findImagesInDirectory rt (render segs) n))
              = count_files isImageFile n)
       \<and> (\<forall>ps p qs. paths = ps @ p # qs \<and> \<not> existsSync fs (path_resolve (cwd rt) [p]) \<longrightarrow>
            fst (findImages rt fs paths)
              = fst (findImages rt fs ps) @ fst (findImages rt fs qs)
            \<and> snd (findImages rt fs paths)
              = snd (findImages rt fs ps) @ PathDoesNotExist p # snd (findImages rt fs qs))"
proof (intro conjI allI impI)
  show d: "fst (findImages rt fs paths) = concat (map (discovered rt fs) paths)"
    by (rule findImages_discovered [OF assms])
  show "list_all isImageFile (fst (findImages rt fs paths))"
    unfolding d using discovered_images [OF assms] by (auto simp: list_all_iff)
next
  fix segs n
  assume a: "list_all valid_seg segs \<and> wf_node n"
  then show t: "fst (findImagesInDirectory rt (render segs) n)
                = map (\<lambda>q. render (segs @ q)) (image_paths n)"
    by (simp add: findImages_tree(1))
  show "length (fst (findImagesInDirectory rt (render segs) n)) = count_files isImageFile n"
    unfolding t by (simp add: length_image_paths(1))
next
  fix ps p qs
  assume a: "paths = ps @ p # qs \<and> \<not> existsSync fs (path_resolve (cwd rt) [p])"
  then have "findImages rt fs paths
         = (fst (findImages rt fs ps) @ fst (findImages rt fs qs),
            snd (findImages rt fs ps) @ PathDoesNotExist p # snd (findImages rt fs qs))"
    using findImages_missing [of fs rt p ps qs] by simp
  then show "fst (findImages rt fs paths) = fst (findImages rt fs ps) @ fst (findImages rt fs qs)"
    and "snd (findImages rt fs paths)
         = snd (findImages rt fs ps) @ PathDoesNotExist p # snd (findImages rt fs qs)"
    by simp_all
qed

theorem findImages_discovers_images_witness:
  "normalized_absolute (cwd example_rt) \<and> wf_node example_fs
   \<and> fst (findImages example_rt example_fs [''images/'', ''nope'', ''photo.jpg'', ''images/notes.txt''])
       = [''/w/images/a.JPG'', ''/w/images/sub/b.png'', ''/w/photo.jpg'']
   \<and> \<not> existsSync example_fs (path_resolve (cwd example_rt) [''nope''])
   \<and> snd (findImages example_rt example_fs [''images/'', ''nope'', ''photo.jpg'', ''images/notes.txt''])
       = [PathDoesNotExist ''nope'', SkippingNonImageFile ''images/notes.txt'']
   \<and> stat example_fs ''/w/images''
       = Some (Dir [(''a.JPG'', File), (''notes.txt'', File), (''sub'', Dir [(''b.png'', File)])])
   \<and> count_files isImageFile
        (Dir [(''a.JPG'', File), (''notes.txt'', File), (''sub'', Dir [(''b.png'', File)])]) = 2
   \<and> count_files (\<lambda>name. \<not> isImageFile name)
        (Dir [(''a.JPG'', File), (''notes.txt'', File), (''sub'', Dir [(''b.png'', File)])]) = 1
   \<and> length (fst (findImagesInDirectory example_rt ''/w/images''
        (Dir [(''a.JPG'', File), (''notes.txt'', File), (''sub'', Dir [(''b.png'', File)])]))) = 2"
proof -
  let ?paths = "[''images/'', ''nope'', ''photo.jpg'', ''images/notes.txt'']"
  let ?dir = "Dir [(''a.JPG'', File), (''notes.txt'', File), (''sub'', Dir [(''b.png'', File)])]"
  have wd: "normalized_absolute (cwd example_rt)" and wf: "wf_node example_fs"
    by code_simp+
  note inst = findImages_discovers_images [OF wd wf, of ?paths]
  have "concat (map (discovered example_rt example_fs) ?paths)
        = [''/w/images/a.JPG'', ''/w/images/sub/b.png'', ''/w/photo.jpg'']"
    by code_simp
  with inst [THEN conjunct1]
  have found: "fst (findImages example_rt example_fs ?paths)
        = [''/w/images/a.JPG'', ''/w/images/sub/b.png'', ''/w/photo.jpg'']"
    by simp
  have missing: "?paths = [''images/''] @ ''nope'' # [''photo.jpg'', ''images/notes.txt'']
      \<and> \<not> existsSync example_fs (path_resolve (cwd example_rt) [''nope''])"
    by code_simp
  have "snd (findImages example_rt example_fs [''images/''])
          @ PathDoesNotExist ''nope''
            # snd (findImages example_rt example_fs [''photo.jpg'', ''images/notes.txt''])
        = [PathDoesNotExist ''nope'', SkippingNonImageFile ''images/notes.txt'']"
    by code_simp
  with inst [THEN conjunct2, THEN conjunct2, THEN conjunct2, rule_format, OF missing, THEN conjunct2]
  have log: "snd (findImages example_rt example_fs ?paths)
        = [PathDoesNotExist ''nope'', SkippingNonImageFile ''images/notes.txt'']"
    by simp
  have tree: "list_all valid_seg [''w'', ''images''] \<and> wf_node ?dir" by code_simp
  have r: "render [''w'', ''images''] = ''/w/images''" by code_simp
  have n: "count_files isImageFile ?dir = 2" and m: "count_files (\<lambda>name. \<not> isImageFile name) ?dir = 1"
    and st: "stat example_fs ''/w/images'' = Some ?dir"
    by code_simp+
  from inst [THEN conjunct2, THEN conjunct2, THEN conjunct1, rule_format, OF tree, THEN conjunct2]
  have len: "length (fst (findImagesInDirectory example_rt ''/w/images'' ?dir)) = 2"
    by (simp only: r n)
  show ?thesis
    using wd wf found missing log st n m len by blast
qed

subsection \<open>The exit status\<close>

text \<open>
  The exit status of \<open>convert\<close> depends on discovery and on the output target only: the
  summary of the batch plays no part in it.
\<close>

lemma convert_action_exit_code:
  "exit_code (convert_action rt fs files to_opt quality_opt out_opt)
   = (if fst (findImages rt fs files) = [] \<or> isl (resolveOutputPath rt fs files (or_null out_opt))
      then 1 else 0)"
  by (cases "resolveOutputPath rt fs files (or_null out_opt)")
    (simp_all add: convert_action_def Let_def split_beta)

text \<open>
  Claim C1 states that the exit status is non-zero if and only if at least one file failed
  or no image was discovered. The run \<open>convert images --to bmp\<close> in \<open>/w\<close> discovers two
  images, both fail with the unsupported format, and the exit status is 0.
\<close>

theorem convert_action_failed_batch_exits_zero:
  "exit_code (convert_action example_rt example_fs [''images''] ''bmp'' ''80'' None) = 0
   \<and> batch (convert_action example_rt example_fs [''images''] ''bmp'' ''80'' None)
       = Some \<lparr> total = 2, successful = 0, failed = 2,
                errors = [(''a.JPG'', UnsupportedFormat ''bmp''),
                          (''b.png'', UnsupportedFormat ''bmp'')] \<rparr>"
  by code_simp

subsection \<open>Optimize with both options\<close>

text \<open>
  Claim C2 states that \<open>optimize\<close> with both the quality and the lossless option fails
  before any file is processed and touches no output directory. The run
  \<open>optimize images --quality 80 --lossless\<close> in \<open>/w\<close> passes the check of the action,
  processes both images, each failing in \<open>optimizeImage\<close>, creates the output directories
  \<open>/w/images-imgwork\<close> and \<open>/w/images-imgwork/sub\<close>, and exits with status 0.
\<close>

theorem optimize_action_both_options_reach_the_batch:
  "truthy (Some ''80'')
   \<and> stat example_fs ''/w/images-imgwork'' = None
   \<and> exit_code (optimize_action example_rt example_fs [''images''] (Some ''80'') True None) = 0
   \<and> batch (optimize_action example_rt example_fs [''images''] (Some ''80'') True None)
       = Some \<lparr> total = 2, successful = 0, failed = 2,
                errors = [(''a.JPG'', OptimizeBoth), (''b.png'', OptimizeBoth)] \<rparr>
   \<and> stat (final_fs (optimize_action example_rt example_fs [''images''] (Some ''80'') True None))
         ''/w/images-imgwork''
       = Some (Dir [(''sub'', Dir [])])"
  by code_simp

subsection \<open>Crop sizes beyond the image\<close>

text \<open>
  Claim C3, as stated for both variants, fails on the first: a request of 800 by 600 on a
  400 by 300 source raises no error there; the size goes to the library's cover-fit
  resize, and the call succeeds.
\<close>

theorem cropImage_v1_oversized_request:
  "sharp_metadata example_rt example_fs ''/w/photo.jpg'' = Inr (400, 300)
   \<and> cropImage_v1 example_rt
         \<lparr> opt_width = Some ''800'', opt_height = Some ''600'', opt_position = ''center'' \<rparr>
         example_fs ''/w/photo.jpg'' ''/w/photo-imgwork.jpg''
       = sharp_toFile example_rt example_fs ''/w/photo.jpg''
           [ResizeCover 800 600 (JStr ''centre'')] ''/w/photo-imgwork.jpg''
   \<and> fst (cropImage_v1 example_rt
         \<lparr> opt_width = Some ''800'', opt_height = Some ''600'', opt_position = ''center'' \<rparr>
         example_fs ''/w/photo.jpg'' ''/w/photo-imgwork.jpg'')
       = Inr ()"
  by code_simp

text \<open>
  Claim C3, amended. In the variant that reads the size of the source image: when at least
  one dimension is given, the position is valid, the metadata can be read and the
  dimension values parse, a crop width (requested or derived) beyond the image width, or a
  crop height beyond the image height, makes \<open>cropImage\<close> fail with the bounds error (the
  width is checked first), the file system untouched and the library's \<open>extract\<close> never
  called.
\<close>

theorem cropImage_v2_out_of_bounds:
  assumes "truthy w \<or> truthy h"
    and "POSITION_MAP_get (toLowerCase pos) = Some gravity"
    and "sharp_metadata rt fs inputPath = Inr (imgWidth, imgHeight)"
    and "parseDimension w imgWidth = Inr parsedWidth"
    and "parseDimension h imgHeight = Inr parsedHeight"
    and "cropImage_size rt parsedWidth parsedHeight imgWidth imgHeight = (cropWidth, cropHeight)"
    and "imgWidth < to_number cropWidth \<or> imgHeight < to_number cropHeight"
  shows "cropImage_v2 rt \<lparr> opt_width = w, opt_height = h, opt_position = pos \<rparr>
           fs inputPath outputPath
         = (Inl (if imgWidth < to_number cropWidth
                 then CropWidthExceeds (to_number cropWidth) imgWidth
                 else CropHeightExceeds (to_number cropHeight) imgHeight), fs)"
  using assms by (auto simp: cropImage_v2_def)

theorem cropImage_v2_out_of_bounds_witness:
  "cropImage_v2 example_rt
     \<lparr> opt_width = Some ''800'', opt_height = Some ''600'', opt_position = ''center'' \<rparr>
     example_fs ''/w/photo.jpg'' ''/w/photo-imgwork.jpg''
   = (Inl (CropWidthExceeds 800 400), example_fs)
   \<and> cropImage_v2 example_rt
     \<lparr> opt_width = None, opt_height = Some ''350'', opt_position = ''top'' \<rparr>
     example_fs ''/w/photo.jpg'' ''/w/photo-imgwork.jpg''
   = (Inl (CropWidthExceeds 466 400), example_fs)"
proof -
  have a: "truthy (Some ''800'') \<or> truthy (Some ''600'')"
    and p: "POSITION_MAP_get (toLowerCase ''center'') = Some (JStr ''centre'')"
    and m: "sharp_metadata example_rt example_fs ''/w/photo.jpg'' = Inr (400, 300)"
    and pw: "parseDimension (Some ''800'') 400 = Inr (Some 800)"
    and ph: "parseDimension (Some ''600'') 300 = Inr (Some 600)"
    and sz: "cropImage_size example_rt (Some 800) (Some 600) 400 300 = (Some 800, Some 600)"
    and ex: "400 < to_number (Some 800) \<or> 300 < to_number (Some 600)"
    by code_simp+
  have a': "truthy None \<or> truthy (Some ''350'')"
    and p': "POSITION_MAP_get (toLowerCase ''top'') = Some (JStr ''north'')"
    and pw': "parseDimension None 400 = Inr None"
    and ph': "parseDimension (Some ''350'') 300 = Inr (Some 350)"
    and sz': "cropImage_size example_rt None (Some 350) 400 300 = (Some 466, Some 350)"
    and ex': "400 < to_number (Some 466) \<or> 300 < to_number (Some 350)"
    by code_simp+
  have v: "to_number (Some 800) = 800" "to_number (Some 466) = 466" "(400::int) < 800"
    "(400::int) < 466"
    by (simp_all add: to_number_def)
  show ?thesis
    using cropImage_v2_out_of_bounds [OF a p m pw ph sz ex, of "''/w/photo-imgwork.jpg''"]
      cropImage_v2_out_of_bounds [OF a' p' m pw' ph' sz' ex', of "''/w/photo-imgwork.jpg''"]
    by (simp only: v if_True)
qed

end
